theory Spec2Isabelle
  imports Complex_Main "HOL-Library.Word" "HOL-Library.Log_Nat"
begin

section \<open>Single-precision arithmetic\<close>

text \<open>
  The C type \<^verbatim>\<open>float\<close> of the F28379D is IEEE-754 binary32. A finite binary32 value is
  modelled by the rational number it denotes, and an arithmetic operation by the exact
  operation on rationals followed by rounding to 24 significant bits, to nearest, ties to
  even. Comparisons are exact. The exponent range is not modelled: a calibrated voltage is
  0 or at least \<^verbatim>\<open>2^-15\<close> in magnitude and a multiple of \<^verbatim>\<open>2^-38\<close>, and the program adds,
  subtracts, scales and averages a few of them, so no result leaves the normal range of
  binary32. Division by zero does not occur: the only divisor is a sample count between
  1 and 10.
\<close>

type_synonym float32 = rat

text \<open>The exponent \<open>e\<close> of a positive rational \<open>x\<close>: \<open>2 powi e \<le> x < 2 powi (e + 1)\<close>.\<close>

definition ilog2 :: "rat \<Rightarrow> int" where
  "ilog2 x = (if 1 \<le> x then bitlen \<lfloor>x\<rfloor> - 1 else - bitlen (\<lceil>1 / x\<rceil> - 1))"

text \<open>Rounding to the nearest integer, ties to the even one.\<close>

definition rne :: "rat \<Rightarrow> int" where
  "rne y = (let f = \<lfloor>y\<rfloor>; d = y - of_int f in
            if d < 1 / 2 then f
            else if 1 / 2 < d then f + 1
            else if even f then f else f + 1)"

text \<open>Rounding to binary32: a value of exponent \<open>e\<close> goes to a multiple of \<open>2 powi (e - 23)\<close>.\<close>

definition round_f32 :: "rat \<Rightarrow> float32" where
  "round_f32 x = (if x = 0 then 0
                  else let q = 2 powi (ilog2 \<bar>x\<bar> - 23) in of_int (rne (x / q)) * q)"

definition f32_add :: "float32 \<Rightarrow> float32 \<Rightarrow> float32" where
  "f32_add a b = round_f32 (a + b)"

definition f32_sub :: "float32 \<Rightarrow> float32 \<Rightarrow> float32" where
  "f32_sub a b = round_f32 (a - b)"

definition f32_mul :: "float32 \<Rightarrow> float32 \<Rightarrow> float32" where
  "f32_mul a b = round_f32 (a * b)"

definition f32_div :: "float32 \<Rightarrow> float32 \<Rightarrow> float32" where
  "f32_div a b = round_f32 (a / b)"

text \<open>The conversions \<^verbatim>\<open>(float)i\<close> of a signed and of an unsigned integer.\<close>

definition f32_of_int :: "int \<Rightarrow> float32" where
  "f32_of_int i = round_f32 (of_int i)"

definition f32_of_nat :: "nat \<Rightarrow> float32" where
  "f32_of_nat n = round_f32 (of_nat n)"


section \<open>adc\_config.h\<close>

text \<open>
  \<^verbatim>\<open>#define DIFFERENTIAL 0.0000503540039F\<close> and \<^verbatim>\<open>#define SINGLE_ENDED 0.00080566406F\<close>:
  the decimal literals, rounded to binary32 by the compiler.
\<close>

definition DIFFERENTIAL :: float32 where
  "DIFFERENTIAL = round_f32 (503540039 / 10 ^ 13)"

definition SINGLE_ENDED :: float32 where
  "SINGLE_ENDED = round_f32 (80566406 / 10 ^ 11)"

definition NUM_ADC_CHANNELS :: nat where
  "NUM_ADC_CHANNELS = 2"


section \<open>The ADC peripheral\<close>

text \<open>
  Modelled from the spec: the driver library calls \<^verbatim>\<open>ADC_forceSOC\<close>,
  \<^verbatim>\<open>ADC_getInterruptStatus\<close>, \<^verbatim>\<open>ADC_clearInterruptStatus\<close> and \<^verbatim>\<open>ADC_readResult\<close> are not
  part of the sources. They are the four platform primitives of the specification
  (trigger a conversion, ask whether it is complete, clear the completion flag, read the
  result), synchronous and non-blocking.

  Each converter has its interrupt flag ADCINT1, its result register for SOC0, the code
  its input would convert to at the moment, and the conversion in flight: \<open>Some k\<close> when
  the conversion ends \<open>k\<close> status polls from now, \<open>None\<close> when no conversion will end. A
  converter whose \<open>latency\<close> is \<open>None\<close> is stuck: a triggered conversion never completes.
  Time passes with every status poll.
\<close>

datatype adc_base = myADCA_BASE | myADCB_BASE

record adc_module =
  adcint1 :: bool
  adcresult0 :: "16 word"
  analog_in :: "16 word"
  latency :: "nat option"
  in_flight :: "nat option"

text \<open>Every driver call is logged, in program order.\<close>

datatype adc_call =
    ForceSOC adc_base
  | GetInterruptStatus adc_base bool
  | ClearInterruptStatus adc_base
  | ReadResult adc_base "16 word"

record platform =
  adc :: "adc_base \<Rightarrow> adc_module"
  calls :: "adc_call list"

definition ADC_forceSOC :: "adc_base \<Rightarrow> platform \<Rightarrow> platform" where
  "ADC_forceSOC b p =
     p\<lparr>adc := (adc p)(b := (adc p b)\<lparr>in_flight := latency (adc p b)\<rparr>),
       calls := calls p @ [ForceSOC b]\<rparr>"

definition tick :: "adc_module \<Rightarrow> adc_module" where
  "tick m = (case in_flight m of
               None \<Rightarrow> m
             | Some 0 \<Rightarrow> m\<lparr>adcint1 := True, adcresult0 := analog_in m, in_flight := None\<rparr>
             | Some (Suc k) \<Rightarrow> m\<lparr>in_flight := Some k\<rparr>)"

definition ADC_getInterruptStatus :: "adc_base \<Rightarrow> platform \<Rightarrow> bool \<times> platform" where
  "ADC_getInterruptStatus b p =
     (let hw = (\<lambda>c. tick (adc p c)); st = adcint1 (hw b)
      in (st, p\<lparr>adc := hw, calls := calls p @ [GetInterruptStatus b st]\<rparr>))"

definition ADC_clearInterruptStatus :: "adc_base \<Rightarrow> platform \<Rightarrow> platform" where
  "ADC_clearInterruptStatus b p =
     p\<lparr>adc := (adc p)(b := (adc p b)\<lparr>adcint1 := False\<rparr>),
       calls := calls p @ [ClearInterruptStatus b]\<rparr>"

definition ADC_readResult :: "adc_base \<Rightarrow> platform \<Rightarrow> 16 word \<times> platform" where
  "ADC_readResult b p =
     (let r = adcresult0 (adc p b) in (r, p\<lparr>calls := calls p @ [ReadResult b r]\<rparr>))"


section \<open>adc\_config.c\<close>

text \<open>
  The polling loop \<^verbatim>\<open>while (ADC_getInterruptStatus(base, ADC_INT_NUMBER1) == false) { }\<close>.
  It has no timeout; on a stuck converter it never returns, which is the value \<open>None\<close>.
\<close>

partial_function (option) wait_ADCINT1 :: "adc_base \<Rightarrow> platform \<Rightarrow> platform option" where
  "wait_ADCINT1 b p =
     (case ADC_getInterruptStatus b p of
        (st, p') \<Rightarrow> if st = False then wait_ADCINT1 b p' else Some p')"

definition AdcConversion ::
  "(nat \<Rightarrow> 16 word) \<Rightarrow> platform \<Rightarrow> ((nat \<Rightarrow> 16 word) \<times> platform) option" where
  "AdcConversion read p =
     (case wait_ADCINT1 myADCA_BASE (ADC_forceSOC myADCA_BASE p) of
        None \<Rightarrow> None
      | Some pa \<Rightarrow>
          (case ADC_readResult myADCA_BASE (ADC_clearInterruptStatus myADCA_BASE pa) of
             (ra, pa') \<Rightarrow>
               (case wait_ADCINT1 myADCB_BASE (ADC_forceSOC myADCB_BASE pa') of
                  None \<Rightarrow> None
                | Some pb \<Rightarrow>
                    (case ADC_readResult myADCB_BASE
                            (ADC_clearInterruptStatus myADCB_BASE pb) of
                       (rb, pb') \<Rightarrow> Some ((read(0 := ra))(1 := rb), pb')))))"

text \<open>
  \<^verbatim>\<open>AdcResult\<close>. The arrays of the program have \<^verbatim>\<open>NUM_ADC_CHANNELS\<close> elements and are only
  indexed below that bound; they are modelled as functions of the index.
  \<^verbatim>\<open>signedValue\<close> is a 32-bit integer between \<open>-32768\<close> and \<open>32767\<close>, so the subtraction
  does not wrap.
\<close>

definition AdcResult :: "(nat \<Rightarrow> float32) \<Rightarrow> (nat \<Rightarrow> 16 word) \<Rightarrow> (nat \<Rightarrow> float32)" where
  "AdcResult voltage read =
     (let signedValue = uint (read 0) - 32768;
          voltage = voltage(0 := f32_mul (f32_of_int signedValue) DIFFERENTIAL);
          voltage = voltage(1 := f32_mul (f32_of_nat (unat (read 1))) SINGLE_ENDED)
      in voltage)"


section \<open>lab\_main.c\<close>

definition TEST_ITERATIONS :: "32 word" where
  "TEST_ITERATIONS = 10"

text \<open>
  What goes out over the serial link. The text layout (column padding, three decimals)
  is display glue and is not modelled: a table is logged with the values it prints.
\<close>

datatype stat_row =
  StatRow (row_min: float32) (row_max: float32) (row_avg: float32) (row_p2p_mV: float32)

datatype uart_out =
    Text string
  | Readings "32 word" "(16 word \<times> float32) list"
  | Statistics "32 word" "stat_row list"

text \<open>The global variables, and the serial output so far (oldest first).\<close>

record globals =
  adcRawData :: "nat \<Rightarrow> 16 word"
  adcVoltages :: "nat \<Rightarrow> float32"
  testIteration :: "32 word"
  minVoltages :: "nat \<Rightarrow> float32"
  maxVoltages :: "nat \<Rightarrow> float32"
  avgVoltages :: "nat \<Rightarrow> float32"
  sumVoltages :: "nat \<Rightarrow> float32"
  uart :: "uart_out list"

text \<open>C start-up zeroes the globals.\<close>

definition boot :: globals where
  "boot = \<lparr>adcRawData = (\<lambda>_. 0), adcVoltages = (\<lambda>_. 0), testIteration = 0,
           minVoltages = (\<lambda>_. 0), maxVoltages = (\<lambda>_. 0), avgVoltages = (\<lambda>_. 0),
           sumVoltages = (\<lambda>_. 0), uart = []\<rparr>"

definition UARTSend :: "uart_out \<Rightarrow> globals \<Rightarrow> globals" where
  "UARTSend x s = s\<lparr>uart := uart s @ [x]\<rparr>"

text \<open>\<^verbatim>\<open>InitStatistics\<close>: the literals \<open>10.0f\<close>, \<open>-10.0f\<close> and \<open>0.0f\<close> are exact.\<close>

definition InitStatistics_body :: "nat \<Rightarrow> globals \<Rightarrow> globals" where
  "InitStatistics_body i s =
     s\<lparr>minVoltages := (minVoltages s)(i := 10),
       maxVoltages := (maxVoltages s)(i := - 10),
       sumVoltages := (sumVoltages s)(i := 0),
       avgVoltages := (avgVoltages s)(i := 0)\<rparr>"

definition InitStatistics :: "globals \<Rightarrow> globals" where
  "InitStatistics s = fold InitStatistics_body [0..<NUM_ADC_CHANNELS] s"

definition UpdateStatistics_body :: "nat \<Rightarrow> globals \<Rightarrow> globals" where
  "UpdateStatistics_body i s =
     (let s1 = (if adcVoltages s i < minVoltages s i
                then s\<lparr>minVoltages := (minVoltages s)(i := adcVoltages s i)\<rparr> else s);
          s2 = (if adcVoltages s1 i > maxVoltages s1 i
                then s1\<lparr>maxVoltages := (maxVoltages s1)(i := adcVoltages s1 i)\<rparr> else s1)
      in s2\<lparr>sumVoltages := (sumVoltages s2)(i := f32_add (sumVoltages s2 i) (adcVoltages s2 i))\<rparr>)"

definition UpdateStatistics :: "globals \<Rightarrow> globals" where
  "UpdateStatistics s = fold UpdateStatistics_body [0..<NUM_ADC_CHANNELS] s"

definition DisplayReadings :: "globals \<Rightarrow> globals" where
  "DisplayReadings s =
     UARTSend (Readings (testIteration s)
                 (map (\<lambda>i. (adcRawData s i, adcVoltages s i)) [0..<NUM_ADC_CHANNELS])) s"

text \<open>
  \<^verbatim>\<open>DisplayStatistics\<close>. The loop computes, stores and prints one row per channel; the
  rows are collected and logged as one table, under the sample count of its title line.
\<close>

definition sampleCount :: "globals \<Rightarrow> 32 word" where
  "sampleCount s =
     (let n = testIteration s mod TEST_ITERATIONS in if n = 0 then TEST_ITERATIONS else n)"

definition DisplayStatistics_body ::
  "32 word \<Rightarrow> nat \<Rightarrow> globals \<times> stat_row list \<Rightarrow> globals \<times> stat_row list" where
  "DisplayStatistics_body n i = (\<lambda>(s, rows).
     (let peakToPeak = f32_mul (f32_sub (maxVoltages s i) (minVoltages s i)) 1000;
          s' = s\<lparr>avgVoltages := (avgVoltages s)
                  (i := f32_div (sumVoltages s i) (f32_of_nat (unat n)))\<rparr>
      in (s', rows @ [StatRow (minVoltages s' i) (maxVoltages s' i) (avgVoltages s' i)
                        peakToPeak])))"

definition DisplayStatistics :: "globals \<Rightarrow> globals" where
  "DisplayStatistics s =
     (let n = sampleCount s in
      case fold (DisplayStatistics_body n) [0..<NUM_ADC_CHANNELS] (s, []) of
        (s', rows) \<Rightarrow> UARTSend (Statistics n rows) s')"

text \<open>\<^verbatim>\<open>VerifyADCReadings\<close>, with its 16-bit counter.\<close>

definition VerifyADCReadings_body :: "globals \<Rightarrow> nat \<Rightarrow> 16 word \<Rightarrow> 16 word" where
  "VerifyADCReadings_body s i validCount =
     (if i = 0
      then (if adcRawData s i > 100 \<and> adcRawData s i < 65435 then validCount + 1
            else validCount)
      else (if adcRawData s i > 10 \<and> adcRawData s i < 4086 then validCount + 1
            else validCount))"

text \<open>
  The two range tests of \<^verbatim>\<open>VerifyADCReadings\<close> on their own: whether the raw sample of
  channel \<open>i\<close> counts as valid.
\<close>

definition plausible :: "nat \<Rightarrow> 16 word \<Rightarrow> bool" where
  "plausible i raw = (if i = 0 then raw > 100 \<and> raw < 65435 else raw > 10 \<and> raw < 4086)"

definition VerifyADCReadings :: "globals \<Rightarrow> bool" where
  "VerifyADCReadings s = (fold (VerifyADCReadings_body s) [0..<NUM_ADC_CHANNELS] 0 > 0)"

text \<open>
  \<^verbatim>\<open>main\<close>, from the initial test on. Device, pin and serial set-up, the header text, the
  LED and the delays carry no state that the program reads back and are left out. Each
  part is given once for the raw samples that \<^verbatim>\<open>AdcConversion\<close> leaves in \<^verbatim>\<open>adcRawData\<close>,
  and once together with the peripheral.
\<close>

definition main_initial_test :: "(nat \<Rightarrow> 16 word) \<Rightarrow> globals \<Rightarrow> globals" where
  "main_initial_test read s0 =
     (let s = UARTSend (Text ''>>> Running ADC Initialization Test...'') s0;
          s = s\<lparr>adcRawData := read\<rparr>;
          s = s\<lparr>adcVoltages := AdcResult (adcVoltages s) (adcRawData s)\<rparr>;
          s = (if VerifyADCReadings s
               then UARTSend (Text ''>>> ADC Initialization: PASSED'') s
               else UARTSend (Text ''    Note: This is OK for floating inputs'')
                      (UARTSend (Text ''    Check: Readings may be at limits'')
                         (UARTSend (Text ''>>> ADC Initialization: WARNING'') s)));
          s = InitStatistics s;
          s = UARTSend (Text ''>>> Starting Continuous Monitoring...'') s;
          s = UARTSend (Text ''>>> Readings update every 1 second'') s;
          s = UARTSend (Text ''>>> Statistics every 10 readings'') s
      in s)"

definition main_loop_body :: "(nat \<Rightarrow> 16 word) \<Rightarrow> globals \<Rightarrow> globals" where
  "main_loop_body read s0 =
     (let s = s0\<lparr>adcRawData := read\<rparr>;
          s = s\<lparr>adcVoltages := AdcResult (adcVoltages s) (adcRawData s)\<rparr>;
          s = UpdateStatistics s;
          s = DisplayReadings s;
          s = (if testIteration s > 0 \<and> testIteration s mod TEST_ITERATIONS = 0
               then InitStatistics (DisplayStatistics s) else s)
      in s\<lparr>testIteration := testIteration s + 1\<rparr>)"

text \<open>The first \<open>n\<close> passes of \<^verbatim>\<open>while(1)\<close>, on the samples of each pass.\<close>

definition main_loop :: "(nat \<Rightarrow> 16 word) list \<Rightarrow> globals \<Rightarrow> globals" where
  "main_loop reads s = fold main_loop_body reads s"

definition main_on :: "(nat \<Rightarrow> 16 word) \<Rightarrow> (nat \<Rightarrow> 16 word) list \<Rightarrow> globals" where
  "main_on read0 reads = main_loop reads (main_initial_test read0 boot)"

text \<open>The same with the peripheral: a pass that never returns from a wait is \<open>None\<close>.\<close>

definition main_initial_test_hw :: "platform \<times> globals \<Rightarrow> (platform \<times> globals) option" where
  "main_initial_test_hw = (\<lambda>(p, s).
     case AdcConversion (adcRawData s) p of
       None \<Rightarrow> None
     | Some (read, p') \<Rightarrow> Some (p', main_initial_test read s))"

definition main_loop_body_hw :: "platform \<times> globals \<Rightarrow> (platform \<times> globals) option" where
  "main_loop_body_hw = (\<lambda>(p, s).
     case AdcConversion (adcRawData s) p of
       None \<Rightarrow> None
     | Some (read, p') \<Rightarrow> Some (p', main_loop_body read s))"

fun main_loop_hw :: "nat \<Rightarrow> platform \<times> globals \<Rightarrow> (platform \<times> globals) option" where
  "main_loop_hw 0 ps = Some ps"
| "main_loop_hw (Suc n) ps =
     (case main_loop_body_hw ps of None \<Rightarrow> None | Some ps' \<Rightarrow> main_loop_hw n ps')"

section \<open>Inputs and observations\<close>

text \<open>The array \<^verbatim>\<open>{a, b}\<close> of one raw sample per channel.\<close>

definition samples :: "16 word \<Rightarrow> 16 word \<Rightarrow> nat \<Rightarrow> 16 word" where
  "samples a b = (\<lambda>_. 0)(0 := a, 1 := b)"


text \<open>
  A statistics window between two resets: \<^verbatim>\<open>UpdateStatistics\<close> called once for each element
  of a sequence of voltage arrays, as the loop does with the voltages of each pass.
\<close>

definition feed_statistics :: "(nat \<Rightarrow> float32) list \<Rightarrow> globals \<Rightarrow> globals" where
  "feed_statistics vs s = fold (\<lambda>v s. UpdateStatistics (s\<lparr>adcVoltages := v\<rparr>)) vs s"

text \<open>The running sum of \<^verbatim>\<open>sumVoltages[i] += adcVoltages[i]\<close>, from the left.\<close>

definition f32_sum :: "float32 list \<Rightarrow> float32 \<Rightarrow> float32" where
  "f32_sum xs a = fold (\<lambda>x acc. f32_add acc x) xs a"

text \<open>The rows of the statistics table printed last, and the sample count of its title.\<close>

definition last_table :: "globals \<Rightarrow> stat_row list" where
  "last_table s =
     (case last (uart s) of Statistics n rows \<Rightarrow> rows | Text _ \<Rightarrow> [] | Readings _ _ \<Rightarrow> [])"

definition last_count :: "globals \<Rightarrow> 32 word" where
  "last_count s =
     (case last (uart s) of Statistics n rows \<Rightarrow> n | Text _ \<Rightarrow> 0 | Readings _ _ \<Rightarrow> 0)"

definition is_Statistics :: "uart_out \<Rightarrow> bool" where
  "is_Statistics x = (case x of Statistics n rows \<Rightarrow> True | Text _ \<Rightarrow> False | Readings _ _ \<Rightarrow> False)"


text \<open>
  The peripheral at rest, as \<^verbatim>\<open>Board_init\<close> leaves it and as every call of \<^verbatim>\<open>AdcConversion\<close>
  finds it: no conversion in flight and both interrupt flags clear.
\<close>

definition idle :: "platform \<Rightarrow> bool" where
  "idle p \<longleftrightarrow>
     in_flight (adc p myADCA_BASE) = None \<and> \<not> adcint1 (adc p myADCA_BASE) \<and>
     in_flight (adc p myADCB_BASE) = None \<and> \<not> adcint1 (adc p myADCB_BASE)"

definition idle_adc :: "nat option \<Rightarrow> 16 word \<Rightarrow> adc_module" where
  "idle_adc l a = \<lparr>adcint1 = False, adcresult0 = 0, analog_in = a, latency = l, in_flight = None\<rparr>"

definition idle_platform :: "nat option \<Rightarrow> 16 word \<Rightarrow> nat option \<Rightarrow> 16 word \<Rightarrow> platform" where
  "idle_platform la a lb b =
     \<lparr>adc = (\<lambda>c. case c of myADCA_BASE \<Rightarrow> idle_adc la a | myADCB_BASE \<Rightarrow> idle_adc lb b),
      calls = []\<rparr>"

text \<open>A converter after a completed and acknowledged conversion.\<close>

definition converted :: "adc_module \<Rightarrow> adc_module" where
  "converted m = m\<lparr>adcint1 := False, adcresult0 := analog_in m, in_flight := None\<rparr>"


section \<open>The loops over the channels, unrolled\<close>

lemma channels: "[0..<NUM_ADC_CHANNELS] = [0, 1]"
  by (simp add: NUM_ADC_CHANNELS_def upt_rec)

lemma InitStatistics_eq:
  "InitStatistics s =
     s\<lparr>minVoltages := (minVoltages s)(0 := 10, 1 := 10),
       maxVoltages := (maxVoltages s)(0 := - 10, 1 := - 10),
       sumVoltages := (sumVoltages s)(0 := 0, 1 := 0),
       avgVoltages := (avgVoltages s)(0 := 0, 1 := 0)\<rparr>"
  by (simp add: InitStatistics_def channels InitStatistics_body_def)

lemma UpdateStatistics_body_eq:
  "UpdateStatistics_body i s =
     s\<lparr>minVoltages := (minVoltages s)(i := min (minVoltages s i) (adcVoltages s i)),
       maxVoltages := (maxVoltages s)(i := max (maxVoltages s i) (adcVoltages s i)),
       sumVoltages := (sumVoltages s)(i := f32_add (sumVoltages s i) (adcVoltages s i))\<rparr>"
  by (auto simp add: UpdateStatistics_body_def Let_def min_def max_def fun_upd_idem_iff)

lemma UpdateStatistics_eq:
  "UpdateStatistics s =
     s\<lparr>minVoltages := (minVoltages s)
         (0 := min (minVoltages s 0) (adcVoltages s 0),
          1 := min (minVoltages s 1) (adcVoltages s 1)),
       maxVoltages := (maxVoltages s)
         (0 := max (maxVoltages s 0) (adcVoltages s 0),
          1 := max (maxVoltages s 1) (adcVoltages s 1)),
       sumVoltages := (sumVoltages s)
         (0 := f32_add (sumVoltages s 0) (adcVoltages s 0),
          1 := f32_add (sumVoltages s 1) (adcVoltages s 1))\<rparr>"
  by (simp add: UpdateStatistics_def channels UpdateStatistics_body_eq)

lemma DisplayStatistics_eq:
  "DisplayStatistics s =
     s\<lparr>avgVoltages := (avgVoltages s)
         (0 := f32_div (sumVoltages s 0) (f32_of_nat (unat (sampleCount s))),
          1 := f32_div (sumVoltages s 1) (f32_of_nat (unat (sampleCount s)))),
       uart := uart s @
         [Statistics (sampleCount s)
            [StatRow (minVoltages s 0) (maxVoltages s 0)
               (f32_div (sumVoltages s 0) (f32_of_nat (unat (sampleCount s))))
               (f32_mul (f32_sub (maxVoltages s 0) (minVoltages s 0)) 1000),
             StatRow (minVoltages s 1) (maxVoltages s 1)
               (f32_div (sumVoltages s 1) (f32_of_nat (unat (sampleCount s))))
               (f32_mul (f32_sub (maxVoltages s 1) (minVoltages s 1)) 1000)]]\<rparr>"
  by (simp add: DisplayStatistics_def channels DisplayStatistics_body_def Let_def UARTSend_def)

lemma VerifyADCReadings_iff:
  "VerifyADCReadings s \<longleftrightarrow>
     (100 < adcRawData s 0 \<and> adcRawData s 0 < 65435) \<or>
     (10 < adcRawData s 1 \<and> adcRawData s 1 < 4086)"
  by (simp add: VerifyADCReadings_def channels VerifyADCReadings_body_def)

lemma testIteration_main_loop_body:
  "testIteration (main_loop_body read s) = testIteration s + 1"
  by (simp add: main_loop_body_def Let_def UpdateStatistics_eq DisplayReadings_def UARTSend_def
      InitStatistics_eq DisplayStatistics_eq)

lemma testIteration_main_loop:
  "testIteration (main_loop reads s) = testIteration s + of_nat (length reads)"
  unfolding main_loop_def
  by (induction reads arbitrary: s) (simp_all add: testIteration_main_loop_body)

lemma uart_main_initial_test:
  "uart (main_initial_test read s) =
     uart s @ [Text ''>>> Running ADC Initialization Test...''] @
     (if VerifyADCReadings (s\<lparr>adcRawData := read\<rparr>)
      then [Text ''>>> ADC Initialization: PASSED'']
      else [Text ''>>> ADC Initialization: WARNING'',
            Text ''    Check: Readings may be at limits'',
            Text ''    Note: This is OK for floating inputs'']) @
     [Text ''>>> Starting Continuous Monitoring...'',
      Text ''>>> Readings update every 1 second'',
      Text ''>>> Statistics every 10 readings'']"
  by (simp add: main_initial_test_def Let_def UARTSend_def InitStatistics_eq VerifyADCReadings_iff)

lemma testIteration_main_initial_test:
  "testIteration (main_initial_test read s) = testIteration s"
  by (simp add: main_initial_test_def Let_def UARTSend_def InitStatistics_eq)


section \<open>Rounding\<close>

lemma ilog2_ge1:
  assumes "1 \<le> x"
  shows "2 powi (ilog2 x) \<le> x \<and> x < 2 powi (ilog2 x + 1)"
proof -
  define n where "n = \<lfloor>x\<rfloor>"
  have n1: "1 \<le> n" using assms by (simp add: n_def)
  then have n0: "0 < n" by simp
  have bl: "1 \<le> bitlen n" using n0 bitlen_eq_zero_iff [of n] bitlen_nonneg [of n] by linarith
  from bitlen_bounds [OF n0]
  have lo: "(2::int) ^ nat (bitlen n - 1) \<le> n" and hi: "n < (2::int) ^ nat (bitlen n)" by auto
  have e: "ilog2 x = bitlen n - 1" using assms by (simp add: ilog2_def n_def)
  have "(2::rat) powi (bitlen n - 1) = of_int (2 ^ nat (bitlen n - 1))"
    using bl by (simp add: power_int_def)
  also have "\<dots> \<le> of_int n" using lo by (simp only: of_int_le_iff)
  also have "\<dots> \<le> x" by (simp add: n_def)
  finally have A: "2 powi (ilog2 x) \<le> x" by (simp add: e)
  have "x < of_int (n + 1)" unfolding n_def by linarith
  also have "\<dots> \<le> of_int (2 ^ nat (bitlen n))" using hi by (subst of_int_le_iff) linarith
  also have "\<dots> = (2::rat) powi (bitlen n)" using bl by (simp add: power_int_def)
  finally have B: "x < 2 powi (ilog2 x + 1)" by (simp add: e)
  from A B show ?thesis ..
qed

lemma ilog2_lt1:
  assumes "0 < x" "x < 1"
  shows "2 powi (ilog2 x) \<le> x \<and> x < 2 powi (ilog2 x + 1)"
proof -
  define y where "y = 1 / x"
  define m where "m = \<lceil>y\<rceil> - 1"
  have y1: "1 < y" using assms by (simp add: y_def)
  have m1: "1 \<le> m" using y1 unfolding m_def by linarith
  then have m0: "0 < m" by simp
  have my: "of_int m < y" "y \<le> of_int m + 1" unfolding m_def by linarith+
  have bl: "1 \<le> bitlen m" using m0 bitlen_eq_zero_iff [of m] bitlen_nonneg [of m] by linarith
  from bitlen_bounds [OF m0]
  have lo: "(2::int) ^ nat (bitlen m - 1) \<le> m" and hi: "m < (2::int) ^ nat (bitlen m)" by auto
  have e: "ilog2 x = - bitlen m" using assms by (simp add: ilog2_def m_def y_def)
  have x: "x = 1 / y" using assms by (simp add: y_def)
  have "y \<le> of_int (m + 1)" using my by simp
  also have "\<dots> \<le> of_int (2 ^ nat (bitlen m))" using hi by (subst of_int_le_iff) linarith
  finally have yle: "y \<le> 2 ^ nat (bitlen m)" by simp
  have "(2::rat) powi (- bitlen m) = 1 / 2 ^ nat (bitlen m)"
    using bl by (simp add: power_int_def field_simps)
  also have "\<dots> \<le> 1 / y" using yle y1 by (simp add: field_simps)
  finally have A: "2 powi (ilog2 x) \<le> x" unfolding e using x by simp
  have "(2::rat) ^ nat (bitlen m - 1) = of_int (2 ^ nat (bitlen m - 1))" by simp
  also have "\<dots> \<le> of_int m" using lo by (simp only: of_int_le_iff)
  also have "\<dots> < y" by (rule my)
  finally have ylt: "(2::rat) ^ nat (bitlen m - 1) < y" .
  have "1 / y < 1 / 2 ^ nat (bitlen m - 1)" using ylt y1 by (simp add: field_simps)
  also have "\<dots> = (2::rat) powi (- bitlen m + 1)"
  proof (cases "bitlen m = 1")
    case True then show ?thesis by simp
  next
    case False
    then have "bitlen m - 1 > 0" using bl by simp
    then have "- bitlen m + 1 < 0" by simp
    then show ?thesis using bl by (simp add: power_int_def field_simps nat_diff_distrib)
  qed
  finally have B: "x < 2 powi (ilog2 x + 1)" unfolding e using x by simp
  from A B show ?thesis ..
qed

lemma ilog2_bounds:
  assumes "0 < x"
  shows "2 powi (ilog2 x) \<le> x \<and> x < 2 powi (ilog2 x + 1)"
  using assms ilog2_ge1 [of x] ilog2_lt1 [of x] by (cases "1 \<le> x") auto

lemma rne_err: "\<bar>of_int (rne y) - y\<bar> \<le> 1 / 2"
proof -
  have "of_int \<lfloor>y\<rfloor> \<le> y" "y < of_int \<lfloor>y\<rfloor> + 1" by linarith+
  then show ?thesis unfolding rne_def Let_def abs_if by (auto simp del: of_int_floor_le)
qed

lemma rne_of_int: "rne (of_int n) = n"
  by (simp add: rne_def)

lemma round_f32_err: "\<bar>round_f32 x - x\<bar> \<le> \<bar>x\<bar> / 2 ^ 24"
proof (cases "x = 0")
  case True
  then show ?thesis by (simp add: round_f32_def)
next
  case False
  define e where "e = ilog2 \<bar>x\<bar>"
  define q :: rat where "q = 2 powi (e - 23)"
  have q0: "0 < q" by (simp add: q_def)
  have r: "round_f32 x = of_int (rne (x / q)) * q"
    using False by (simp add: round_f32_def e_def q_def Let_def)
  have "of_int (rne (x / q)) * q - x = (of_int (rne (x / q)) - x / q) * q"
    using q0 by (simp add: left_diff_distrib)
  then have "\<bar>of_int (rne (x / q)) * q - x\<bar> = \<bar>of_int (rne (x / q)) - x / q\<bar> * q"
    using q0 by (simp only: abs_mult)
  also have "\<dots> \<le> (1 / 2) * q" using rne_err [of "x / q"] q0 by (simp add: mult_right_mono)
  also have "\<dots> = 2 powi e / 2 ^ 24" by (simp add: q_def power_int_diff)
  also have "\<dots> \<le> \<bar>x\<bar> / 2 ^ 24"
    using ilog2_bounds [of "\<bar>x\<bar>"] False by (simp add: e_def divide_right_mono)
  finally show ?thesis by (simp add: r)
qed

text \<open>A value of at most 24 significant bits is left as it is.\<close>

lemma round_f32_exact:
  assumes "\<bar>m\<bar> < 2 ^ 24"
  shows "round_f32 (of_int m * 2 powi j) = of_int m * 2 powi j"
proof (cases "m = 0")
  case True
  then show ?thesis by (simp add: round_f32_def)
next
  case False
  define x :: rat where "x = of_int m * 2 powi j"
  define e where "e = ilog2 \<bar>x\<bar>"
  have x0: "x \<noteq> 0" using False by (simp add: x_def)
  have ax: "\<bar>x\<bar> = of_int \<bar>m\<bar> * 2 powi j" by (simp add: x_def abs_mult)
  have "(of_int \<bar>m\<bar> :: rat) < of_int (2 ^ 24)" using assms by (simp only: of_int_less_iff)
  then have "of_int \<bar>m\<bar> < (2::rat) ^ 24" by simp
  then have "\<bar>x\<bar> < 2 ^ 24 * 2 powi j" unfolding ax by (simp add: mult_strict_right_mono)
  also have "\<dots> = 2 powi (24 + j)" by (simp add: power_int_add)
  finally have up: "\<bar>x\<bar> < 2 powi (24 + j)" .
  have "2 powi e \<le> \<bar>x\<bar>" using ilog2_bounds [of "\<bar>x\<bar>"] x0 by (simp add: e_def)
  with up have "(2::rat) powi e < 2 powi (24 + j)" by simp
  then have "e < 24 + j"
    using power_int_increasing [of "24 + j" e "2::rat"] by (cases "e < 24 + j") auto
  then have "0 \<le> j - e + 23" by simp
  define n where "n = nat (j - e + 23)"
  have n: "j = e - 23 + int n" using \<open>0 \<le> j - e + 23\<close> by (simp add: n_def)
  have "x / 2 powi (e - 23) = of_int m * (2 powi j / 2 powi (e - 23))" by (simp add: x_def)
  also have "2 powi j / 2 powi (e - 23) = (2::rat) powi (int n)"
    unfolding n by (simp add: power_int_add)
  also have "of_int m * (2::rat) powi (int n) = of_int (m * 2 ^ n)" by (simp add: power_int_of_nat)
  finally have "rne (x / 2 powi (e - 23)) = m * 2 ^ n" by (simp only: rne_of_int)
  then have "round_f32 x = of_int (m * 2 ^ n) * 2 powi (e - 23)"
    using x0 by (simp add: round_f32_def Let_def e_def)
  also have "\<dots> = of_int m * (2 powi (int n) * 2 powi (e - 23))" by (simp add: power_int_of_nat)
  also have "2 powi (int n) * 2 powi (e - 23) = (2::rat) powi j"
    unfolding n by (simp add: power_int_add)
  finally show ?thesis by (simp add: x_def)
qed

lemma f32_of_int_exact: "\<bar>k\<bar> < 2 ^ 24 \<Longrightarrow> f32_of_int k = of_int k"
  using round_f32_exact [of k 0] by (simp add: f32_of_int_def)

lemma f32_of_nat_exact: "n < 2 ^ 24 \<Longrightarrow> f32_of_nat n = of_nat n"
  using round_f32_exact [of "int n" 0] by (simp add: f32_of_nat_def)

lemma DIFFERENTIAL_val: "DIFFERENTIAL = 13841203 / 2 ^ 38"
  unfolding DIFFERENTIAL_def by code_simp

lemma SINGLE_ENDED_val: "SINGLE_ENDED = 13841203 / 2 ^ 34"
  unfolding SINGLE_ENDED_def by code_simp


section \<open>Calibration\<close>

lemma round_f32_nonneg: "0 \<le> x \<Longrightarrow> 0 \<le> round_f32 x"
proof -
  assume x: "0 \<le> x"
  have "\<bar>x\<bar> / 2 ^ 24 \<le> x" using x by (simp add: field_simps)
  with round_f32_err [of x] show ?thesis by linarith
qed

lemma round_f32_abs_le:
  assumes "\<bar>x\<bar> \<le> b"
  shows "\<bar>round_f32 x\<bar> \<le> b + b / 2 ^ 24"
proof -
  have "\<bar>x\<bar> / 2 ^ 24 \<le> b / 2 ^ 24" using assms by (simp add: divide_right_mono)
  with round_f32_err [of x] assms show ?thesis by linarith
qed

lemma round_f32_near:
  assumes "\<bar>x\<bar> \<le> b"
  shows "\<bar>round_f32 x - x\<bar> \<le> b / 2 ^ 24"
proof -
  have "\<bar>x\<bar> / 2 ^ 24 \<le> b / 2 ^ 24" using assms by (simp add: divide_right_mono)
  with round_f32_err [of x] show ?thesis by simp
qed

lemma uint16_bounds: "0 \<le> uint (r :: 16 word) \<and> uint r \<le> 65535"
  using uint_lt2p [of r] by simp

lemma unat16_bound: "unat (r :: 16 word) \<le> 65535"
proof -
  have "unat r < 2 ^ LENGTH(16)" by (rule unsigned_less)
  then show ?thesis by simp
qed

lemma signedValue_bound: "\<bar>uint (r :: 16 word) - 32768\<bar> \<le> 32768"
proof -
  have "uint r = int (unat r)" by simp
  with unat16_bound [of r] show ?thesis by linarith
qed


lemma AdcResult_0:
  "AdcResult v read 0 = round_f32 (of_int (uint (read 0) - 32768) * DIFFERENTIAL)"
proof -
  have "\<bar>uint (read 0) - 32768\<bar> < 2 ^ 24" using signedValue_bound [of "read 0"] by simp
  then show ?thesis by (simp add: AdcResult_def Let_def f32_mul_def f32_of_int_exact)
qed

lemma AdcResult_1:
  "AdcResult v read 1 = round_f32 (of_nat (unat (read 1)) * SINGLE_ENDED)"
proof -
  have "unat (read 1) < 2 ^ 24" using unat16_bound [of "read 1"] by simp
  then show ?thesis by (simp add: AdcResult_def Let_def f32_mul_def f32_of_nat_exact)
qed

lemma diff_product_bound:
  fixes k :: int
  assumes "\<bar>k\<bar> \<le> K"
  shows "\<bar>of_int k * DIFFERENTIAL\<bar> \<le> of_int K * (13841203 / 2 ^ 38)"
proof -
  have "\<bar>of_int k * DIFFERENTIAL\<bar> = of_int \<bar>k\<bar> * (13841203 / 2 ^ 38)"
    by (simp add: DIFFERENTIAL_val abs_mult)
  also have "\<dots> \<le> of_int K * (13841203 / 2 ^ 38)"
    using assms by (intro mult_right_mono) simp_all
  finally show ?thesis .
qed

lemma AdcResult_0_formula:
  "\<bar>AdcResult v read 0 - (of_int (uint (read 0)) - 32768) * (33 / 10 / 65536)\<bar> \<le> 1 / 4000000"
proof -
  define k where "k = uint (read 0) - 32768"
  have k: "\<bar>k\<bar> \<le> 32768" unfolding k_def by (rule signedValue_bound)
  define x :: rat where "x = of_int k * DIFFERENTIAL"
  define t :: rat where "t = of_int k * (33 / 10 / 65536)"
  have "\<bar>x\<bar> \<le> of_int 32768 * (13841203 / 2 ^ 38)"
    unfolding x_def using k by (rule diff_product_bound)
  then have r: "\<bar>round_f32 x - x\<bar> \<le> of_int 32768 * (13841203 / 2 ^ 38) / 2 ^ 24"
    by (rule round_f32_near)
  have "x - t = of_int k * (- 1 / (5 * 2 ^ 38))"
    by (simp add: x_def t_def DIFFERENTIAL_val field_simps)
  then have "\<bar>x - t\<bar> = of_int \<bar>k\<bar> * (1 / (5 * 2 ^ 38))"
    by (simp add: abs_mult)
  also have "\<dots> \<le> of_int 32768 * (1 / (5 * 2 ^ 38))"
    using k by (intro mult_right_mono) simp_all
  finally have d: "\<bar>x - t\<bar> \<le> of_int 32768 * (1 / (5 * 2 ^ 38))" .
  have "\<bar>round_f32 x - t\<bar> \<le> \<bar>round_f32 x - x\<bar> + \<bar>x - t\<bar>" by linarith
  also have "\<dots> \<le> of_int 32768 * (13841203 / 2 ^ 38) / 2 ^ 24 + of_int 32768 * (1 / (5 * 2 ^ 38))"
    using r d by (rule add_mono)
  also have "\<dots> \<le> 1 / 4000000" by simp
  finally have "\<bar>round_f32 x - t\<bar> \<le> 1 / 4000000" .
  moreover have "AdcResult v read 0 = round_f32 x" by (simp add: AdcResult_0 k_def x_def)
  moreover have "(of_int (uint (read 0)) - 32768) * (33 / 10 / 65536) = t"
    by (simp add: t_def k_def)
  ultimately show ?thesis by simp
qed

lemma se_product_bound:
  fixes n :: nat
  assumes "n \<le> N"
  shows "\<bar>of_nat n * SINGLE_ENDED\<bar> \<le> of_nat N * (13841203 / 2 ^ 34)"
proof -
  have "\<bar>of_nat n * SINGLE_ENDED\<bar> = of_nat n * (13841203 / 2 ^ 34)"
    by (simp add: SINGLE_ENDED_val abs_mult)
  also have "\<dots> \<le> of_nat N * (13841203 / 2 ^ 34)"
    using assms by (intro mult_right_mono) simp_all
  finally show ?thesis .
qed

lemma AdcResult_1_formula:
  assumes "read 1 \<le> 4095"
  shows "\<bar>AdcResult v read 1 - of_nat (unat (read 1)) * (33 / 10 / 4096)\<bar> \<le> 1 / 4000000"
proof -
  define n where "n = unat (read 1)"
  have n: "n \<le> 4095" using assms by (simp add: n_def word_le_nat_alt)
  define x :: rat where "x = of_nat n * SINGLE_ENDED"
  define t :: rat where "t = of_nat n * (33 / 10 / 4096)"
  have "\<bar>x\<bar> \<le> of_nat 4095 * (13841203 / 2 ^ 34)"
    unfolding x_def using n by (rule se_product_bound)
  then have r: "\<bar>round_f32 x - x\<bar> \<le> of_nat 4095 * (13841203 / 2 ^ 34) / 2 ^ 24"
    by (rule round_f32_near)
  have "x - t = of_nat n * (- 1 / (5 * 2 ^ 34))"
    by (simp add: x_def t_def SINGLE_ENDED_val field_simps)
  then have "\<bar>x - t\<bar> = of_nat n * (1 / (5 * 2 ^ 34))"
    by (simp add: abs_mult)
  also have "\<dots> \<le> of_nat 4095 * (1 / (5 * 2 ^ 34))"
    using n by (intro mult_right_mono) simp_all
  finally have d: "\<bar>x - t\<bar> \<le> of_nat 4095 * (1 / (5 * 2 ^ 34))" .
  have "\<bar>round_f32 x - t\<bar> \<le> \<bar>round_f32 x - x\<bar> + \<bar>x - t\<bar>" by linarith
  also have "\<dots> \<le> of_nat 4095 * (13841203 / 2 ^ 34) / 2 ^ 24 + of_nat 4095 * (1 / (5 * 2 ^ 34))"
    using r d by (rule add_mono)
  also have "\<dots> \<le> 1 / 4000000" by simp
  finally have "\<bar>round_f32 x - t\<bar> \<le> 1 / 4000000" .
  then show ?thesis unfolding x_def t_def n_def by (simp only: AdcResult_1)
qed

lemma round_f32_minus_165: "round_f32 (- 165 / 100) = - 13841203 / 2 ^ 23"
  by code_simp

lemma AdcResult_0_at_0: "AdcResult v (read(0 := 0)) 0 = - 13841203 / 2 ^ 23"
proof -
  have e: "of_int (- 32768) * DIFFERENTIAL = of_int (- 13841203) * 2 powi (- 23)"
    by (simp add: DIFFERENTIAL_val)
  have "round_f32 (of_int (- 13841203) * 2 powi (- 23)) = of_int (- 13841203) * 2 powi (- 23)"
    by (rule round_f32_exact) simp
  then have "round_f32 (of_int (- 32768) * DIFFERENTIAL) = of_int (- 13841203) * 2 powi (- 23)"
    by (simp only: e)
  also have "\<dots> = - 13841203 / 2 ^ 23" by simp
  finally show ?thesis by (simp add: AdcResult_0)
qed

lemma AdcResult_0_range: "- 165 / 100 \<le> AdcResult v read 0 \<and> AdcResult v read 0 < 165 / 100"
proof (cases "read 0 = 0")
  case True
  then have "read = read(0 := 0)" by auto
  then have "AdcResult v read 0 = - 13841203 / 2 ^ 23" using AdcResult_0_at_0 [of v read] by simp
  then show ?thesis by simp
next
  case False
  define k where "k = uint (read 0) - 32768"
  have "uint (read 0) \<noteq> 0" using False by (simp add: uint_0_iff)
  then have "\<bar>k\<bar> \<le> 32767" using uint16_bounds [of "read 0"] unfolding k_def by linarith
  then have "\<bar>of_int k * DIFFERENTIAL\<bar> \<le> of_int 32767 * (13841203 / 2 ^ 38)"
    by (rule diff_product_bound)
  then have "\<bar>round_f32 (of_int k * DIFFERENTIAL)\<bar>
      \<le> of_int 32767 * (13841203 / 2 ^ 38) + of_int 32767 * (13841203 / 2 ^ 38) / 2 ^ 24"
    by (rule round_f32_abs_le)
  also have "\<dots> < 165 / 100" by simp
  finally have "\<bar>AdcResult v read 0\<bar> < 165 / 100" by (simp add: AdcResult_0 k_def)
  then show ?thesis by linarith
qed

lemma AdcResult_1_range:
  assumes "read 1 \<le> 4095"
  shows "0 \<le> AdcResult v read 1 \<and> AdcResult v read 1 < 33 / 10"
proof -
  define n where "n = unat (read 1)"
  have n: "n \<le> 4095" using assms by (simp add: n_def word_le_nat_alt)
  have "0 \<le> of_nat n * SINGLE_ENDED" by (simp add: SINGLE_ENDED_val)
  then have lo: "0 \<le> round_f32 (of_nat n * SINGLE_ENDED)" by (rule round_f32_nonneg)
  have "\<bar>of_nat n * SINGLE_ENDED\<bar> \<le> of_nat 4095 * (13841203 / 2 ^ 34)"
    using n by (rule se_product_bound)
  then have "\<bar>round_f32 (of_nat n * SINGLE_ENDED)\<bar>
      \<le> of_nat 4095 * (13841203 / 2 ^ 34) + of_nat 4095 * (13841203 / 2 ^ 34) / 2 ^ 24"
    by (rule round_f32_abs_le)
  also have "\<dots> < 33 / 10" by simp
  finally have "\<bar>round_f32 (of_nat n * SINGLE_ENDED)\<bar> < 33 / 10" .
  with lo have "0 \<le> round_f32 (of_nat n * SINGLE_ENDED) \<and>
      round_f32 (of_nat n * SINGLE_ENDED) < 33 / 10" by linarith
  then show ?thesis unfolding n_def by (simp only: AdcResult_1)
qed


text \<open>
  The bound on the raw sample of channel 1 is the converter's, not \<^verbatim>\<open>AdcResult\<close>'s: the
  function takes any 16-bit value, and a value above the 12-bit range would scale past
  the sentinel.
\<close>

lemma AdcResult_1_at_65535: "AdcResult v (samples a 65535) 1 = 13840992 / 2 ^ 18"
proof -
  have "round_f32 (65535 * (13841203 / 2 ^ 34)) = 13840992 / 2 ^ 18" by code_simp
  then show ?thesis unfolding AdcResult_1 by (simp add: samples_def SINGLE_ENDED_val)
qed


section \<open>Acquisition\<close>

lemma tick_idle: "in_flight m = None \<Longrightarrow> tick m = m"
  by (simp add: tick_def)

lemma tick_funpow_idle: "in_flight m = None \<Longrightarrow> (tick ^^ n) m = m"
  by (induction n) (simp_all add: tick_idle)

lemma tick_last: "in_flight m = Some 0 \<Longrightarrow>
    tick m = m\<lparr>adcint1 := True, adcresult0 := analog_in m, in_flight := None\<rparr>"
  by (simp add: tick_def)

lemma tick_Suc: "in_flight m = Some (Suc k) \<Longrightarrow> tick m = m\<lparr>in_flight := Some k\<rparr>"
  by (simp add: tick_def)

lemma tick_funpow_completes:
  "in_flight m = Some k \<Longrightarrow>
     (tick ^^ Suc k) m = m\<lparr>adcint1 := True, adcresult0 := analog_in m, in_flight := None\<rparr>"
proof (induction k arbitrary: m)
  case 0
  then show ?case by (simp add: tick_last)
next
  case (Suc k)
  have "(tick ^^ Suc (Suc k)) m = (tick ^^ Suc k) (tick m)" by (simp only: funpow_Suc_right o_apply)
  also have "tick m = m\<lparr>in_flight := Some k\<rparr>" using Suc.prems by (rule tick_Suc)
  also have "(tick ^^ Suc k) (m\<lparr>in_flight := Some k\<rparr>)
      = (m\<lparr>in_flight := Some k\<rparr>)\<lparr>adcint1 := True,
           adcresult0 := analog_in (m\<lparr>in_flight := Some k\<rparr>), in_flight := None\<rparr>"
    by (rule Suc.IH) simp
  finally show ?case by simp
qed

text \<open>The wait returns after \<open>k\<close> polls that find the flag clear and one that finds it set.\<close>

lemma wait_ADCINT1_completes:
  assumes "in_flight (adc p b) = Some k" and "\<not> adcint1 (adc p b)"
  shows "wait_ADCINT1 b p =
           Some (p\<lparr>adc := (\<lambda>c. (tick ^^ Suc k) (adc p c)),
                   calls := calls p @ replicate k (GetInterruptStatus b False)
                              @ [GetInterruptStatus b True]\<rparr>)"
  using assms
proof (induction k arbitrary: p)
  case 0
  then show ?case
    by (subst wait_ADCINT1.simps) (simp add: ADC_getInterruptStatus_def Let_def tick_last)
next
  case (Suc k)
  define p' where "p' = p\<lparr>adc := (\<lambda>c. tick (adc p c)),
                          calls := calls p @ [GetInterruptStatus b False]\<rparr>"
  have poll: "ADC_getInterruptStatus b p = (False, p')"
    using Suc.prems by (simp add: ADC_getInterruptStatus_def Let_def tick_Suc p'_def)
  have a: "in_flight (adc p' b) = Some k" "\<not> adcint1 (adc p' b)"
    using Suc.prems by (simp_all add: p'_def tick_Suc)
  have "wait_ADCINT1 b p = wait_ADCINT1 b p'"
    by (subst wait_ADCINT1.simps) (simp add: poll)
  also have "\<dots> = Some (p'\<lparr>adc := (\<lambda>c. (tick ^^ Suc k) (adc p' c)),
                   calls := calls p' @ replicate k (GetInterruptStatus b False)
                              @ [GetInterruptStatus b True]\<rparr>)"
    using a by (rule Suc.IH)
  also have "(\<lambda>c. (tick ^^ Suc k) (adc p' c)) = (\<lambda>c. (tick ^^ Suc (Suc k)) (adc p c))"
    by (simp add: p'_def funpow_swap1)
  finally show ?case by (simp add: p'_def)
qed

text \<open>With nothing in flight and the flag clear, the wait never returns.\<close>

lemma wait_ADCINT1_returns_only:
  "\<forall>b p q. wait_ADCINT1 b p = Some q \<longrightarrow> in_flight (adc p b) \<noteq> None \<or> adcint1 (adc p b)"
proof (induction rule: wait_ADCINT1.fixp_induct)
  case 1
  have "option.admissible (\<lambda>f. \<forall>x y. f x = Some y \<longrightarrow>
          in_flight (adc (snd x) (fst x)) \<noteq> None \<or> adcint1 (adc (snd x) (fst x)))"
    by (rule option_admissible)
  then show ?case by (simp add: curry_def)
next
  case 2
  show ?case by simp
next
  case (3 wait)
  show ?case
  proof (intro allI impI)
    fix b p q
    assume r: "(case ADC_getInterruptStatus b p of
                  (st, p') \<Rightarrow> if st = False then wait b p' else Some p') = Some q"
    show "in_flight (adc p b) \<noteq> None \<or> adcint1 (adc p b)"
    proof (rule ccontr)
      assume n: "\<not> (in_flight (adc p b) \<noteq> None \<or> adcint1 (adc p b))"
      define p' where "p' = p\<lparr>adc := (\<lambda>c. tick (adc p c)),
                              calls := calls p @ [GetInterruptStatus b False]\<rparr>"
      have poll: "ADC_getInterruptStatus b p = (False, p')"
        using n by (simp add: ADC_getInterruptStatus_def Let_def tick_idle p'_def)
      with r have "wait b p' = Some q" by simp
      with 3 have "in_flight (adc p' b) \<noteq> None \<or> adcint1 (adc p' b)" by blast
      with n show False by (simp add: p'_def tick_idle)
    qed
  qed
qed

lemma wait_ADCINT1_stuck:
  assumes "in_flight (adc p b) = None" and "\<not> adcint1 (adc p b)"
  shows "wait_ADCINT1 b p = None"
proof (cases "wait_ADCINT1 b p")
  case None
  then show ?thesis .
next
  case (Some q)
  with wait_ADCINT1_returns_only have "in_flight (adc p b) \<noteq> None \<or> adcint1 (adc p b)"
    by blast
  with assms show ?thesis by simp
qed

lemma AdcConversion_idle:
  assumes "idle p"
    and "latency (adc p myADCA_BASE) = Some ka" and "latency (adc p myADCB_BASE) = Some kb"
  shows
    "AdcConversion read p =
       Some (read(0 := analog_in (adc p myADCA_BASE), 1 := analog_in (adc p myADCB_BASE)),
             p\<lparr>adc := (\<lambda>c. converted (adc p c)),
               calls := calls p
                 @ [ForceSOC myADCA_BASE]
                 @ replicate ka (GetInterruptStatus myADCA_BASE False)
                 @ [GetInterruptStatus myADCA_BASE True,
                    ClearInterruptStatus myADCA_BASE,
                    ReadResult myADCA_BASE (analog_in (adc p myADCA_BASE)),
                    ForceSOC myADCB_BASE]
                 @ replicate kb (GetInterruptStatus myADCB_BASE False)
                 @ [GetInterruptStatus myADCB_BASE True,
                    ClearInterruptStatus myADCB_BASE,
                    ReadResult myADCB_BASE (analog_in (adc p myADCB_BASE))]\<rparr>) \<and>
     idle (p\<lparr>adc := (\<lambda>c. converted (adc p c))\<rparr>)"
proof -
  define A where "A = adc p myADCA_BASE"
  define B where "B = adc p myADCB_BASE"
  have idleA: "in_flight A = None" "\<not> adcint1 A" and idleB: "in_flight B = None" "\<not> adcint1 B"
    using assms(1) by (simp_all add: idle_def A_def B_def)
  have latA: "latency A = Some ka" and latB: "latency B = Some kb"
    using assms(2,3) by (simp_all add: A_def B_def)
  have hw: "adc p = (\<lambda>c. case c of myADCA_BASE \<Rightarrow> A | myADCB_BASE \<Rightarrow> B)"
    by (rule ext) (simp add: A_def B_def split: adc_base.split)
  \<comment> \<open>channel 0\<close>
  define p1 where "p1 = ADC_forceSOC myADCA_BASE p"
  have p1: "adc p1 = (\<lambda>c. case c of myADCA_BASE \<Rightarrow> A\<lparr>in_flight := Some ka\<rparr> | myADCB_BASE \<Rightarrow> B)"
    "calls p1 = calls p @ [ForceSOC myADCA_BASE]"
    by (auto simp add: p1_def ADC_forceSOC_def hw latA split: adc_base.split)
  define p2 where "p2 = p1\<lparr>adc := (\<lambda>c. (tick ^^ Suc ka) (adc p1 c)),
      calls := calls p1 @ replicate ka (GetInterruptStatus myADCA_BASE False)
                 @ [GetInterruptStatus myADCA_BASE True]\<rparr>"
  have w1: "wait_ADCINT1 myADCA_BASE p1 = Some p2"
    unfolding p2_def by (rule wait_ADCINT1_completes) (simp_all add: p1 idleA)
  have tA: "(tick ^^ Suc ka) (A\<lparr>in_flight := Some ka\<rparr>)
      = A\<lparr>adcint1 := True, adcresult0 := analog_in A, in_flight := None\<rparr>"
    using tick_funpow_completes [of "A\<lparr>in_flight := Some ka\<rparr>" ka]
    by (simp del: funpow.simps)
  have tB: "(tick ^^ Suc ka) B = B" using idleB(1) by (rule tick_funpow_idle)
  have p2: "adc p2 = (\<lambda>c. case c of
        myADCA_BASE \<Rightarrow> A\<lparr>adcint1 := True, adcresult0 := analog_in A, in_flight := None\<rparr>
      | myADCB_BASE \<Rightarrow> B)"
    by (rule ext) (simp add: p2_def p1 tA tB split: adc_base.split del: funpow.simps)
  define p3 where "p3 = ADC_clearInterruptStatus myADCA_BASE p2"
  have p3: "adc p3 = (\<lambda>c. case c of myADCA_BASE \<Rightarrow> converted A | myADCB_BASE \<Rightarrow> B)"
    by (rule ext)
       (simp add: p3_def ADC_clearInterruptStatus_def p2 converted_def split: adc_base.split)
  define p4 where "p4 = p3\<lparr>calls := calls p3 @ [ReadResult myADCA_BASE (analog_in A)]\<rparr>"
  have r1: "ADC_readResult myADCA_BASE p3 = (analog_in A, p4)"
    by (simp add: ADC_readResult_def Let_def p3 p4_def converted_def)
  \<comment> \<open>channel 1\<close>
  define p5 where "p5 = ADC_forceSOC myADCB_BASE p4"
  have p5: "adc p5 = (\<lambda>c. case c of myADCA_BASE \<Rightarrow> converted A
                                  | myADCB_BASE \<Rightarrow> B\<lparr>in_flight := Some kb\<rparr>)"
    by (rule ext) (simp add: p5_def ADC_forceSOC_def p4_def p3 latB split: adc_base.split)
  define p6 where "p6 = p5\<lparr>adc := (\<lambda>c. (tick ^^ Suc kb) (adc p5 c)),
      calls := calls p5 @ replicate kb (GetInterruptStatus myADCB_BASE False)
                 @ [GetInterruptStatus myADCB_BASE True]\<rparr>"
  have w2: "wait_ADCINT1 myADCB_BASE p5 = Some p6"
    unfolding p6_def by (rule wait_ADCINT1_completes) (simp_all add: p5 idleB)
  have uB: "(tick ^^ Suc kb) (B\<lparr>in_flight := Some kb\<rparr>)
      = B\<lparr>adcint1 := True, adcresult0 := analog_in B, in_flight := None\<rparr>"
    using tick_funpow_completes [of "B\<lparr>in_flight := Some kb\<rparr>" kb]
    by (simp del: funpow.simps)
  have uA: "(tick ^^ Suc kb) (converted A) = converted A"
    by (rule tick_funpow_idle) (simp add: converted_def)
  have p6: "adc p6 = (\<lambda>c. case c of
        myADCA_BASE \<Rightarrow> converted A
      | myADCB_BASE \<Rightarrow> B\<lparr>adcint1 := True, adcresult0 := analog_in B, in_flight := None\<rparr>)"
    by (rule ext) (simp add: p6_def p5 uA uB split: adc_base.split del: funpow.simps)
  define p7 where "p7 = ADC_clearInterruptStatus myADCB_BASE p6"
  have p7: "adc p7 = (\<lambda>c. case c of myADCA_BASE \<Rightarrow> converted A | myADCB_BASE \<Rightarrow> converted B)"
    by (rule ext)
       (simp add: p7_def ADC_clearInterruptStatus_def p6 converted_def split: adc_base.split)
  define p8 where "p8 = p7\<lparr>calls := calls p7 @ [ReadResult myADCB_BASE (analog_in B)]\<rparr>"
  have r2: "ADC_readResult myADCB_BASE p7 = (analog_in B, p8)"
    by (simp add: ADC_readResult_def Let_def p7 p8_def converted_def)
  have run: "AdcConversion read p = Some (read(0 := analog_in A, 1 := analog_in B), p8)"
    by (simp add: AdcConversion_def p1_def [symmetric] w1 p3_def [symmetric] r1
          p5_def [symmetric] w2 p7_def [symmetric] r2)
  have all: "(\<lambda>c. converted (adc p c))
               = (\<lambda>c. case c of myADCA_BASE \<Rightarrow> converted A | myADCB_BASE \<Rightarrow> converted B)"
    by (rule ext) (simp add: A_def B_def split: adc_base.split)
  have "calls p8 = calls p
                 @ [ForceSOC myADCA_BASE]
                 @ replicate ka (GetInterruptStatus myADCA_BASE False)
                 @ [GetInterruptStatus myADCA_BASE True,
                    ClearInterruptStatus myADCA_BASE,
                    ReadResult myADCA_BASE (analog_in A),
                    ForceSOC myADCB_BASE]
                 @ replicate kb (GetInterruptStatus myADCB_BASE False)
                 @ [GetInterruptStatus myADCB_BASE True,
                    ClearInterruptStatus myADCB_BASE,
                    ReadResult myADCB_BASE (analog_in B)]"
    by (simp add: p8_def p7_def ADC_clearInterruptStatus_def p6_def p5_def ADC_forceSOC_def
          p4_def p3_def p2_def p1)
  then have p8: "p8 = p\<lparr>adc := (\<lambda>c. converted (adc p c)),
               calls := calls p
                 @ [ForceSOC myADCA_BASE]
                 @ replicate ka (GetInterruptStatus myADCA_BASE False)
                 @ [GetInterruptStatus myADCA_BASE True,
                    ClearInterruptStatus myADCA_BASE,
                    ReadResult myADCA_BASE (analog_in A),
                    ForceSOC myADCB_BASE]
                 @ replicate kb (GetInterruptStatus myADCB_BASE False)
                 @ [GetInterruptStatus myADCB_BASE True,
                    ClearInterruptStatus myADCB_BASE,
                    ReadResult myADCB_BASE (analog_in B)]\<rparr>"
    using p7 unfolding all
    by (simp add: p8_def p7_def ADC_clearInterruptStatus_def p6_def p5_def ADC_forceSOC_def
          p4_def p3_def p2_def p1_def)
  have "idle (p\<lparr>adc := (\<lambda>c. converted (adc p c))\<rparr>)"
    by (simp add: idle_def converted_def)
  with run p8 show ?thesis by (simp add: A_def B_def)
qed

text \<open>
  C6. Let \<^verbatim>\<open>AdcConversion\<close> start with the peripheral at rest and both converters able to
  complete. Then it returns, and the driver calls it has made are, in order: for ADCA the
  trigger, the status polls up to the first that finds ADCINT1 of ADCA set, the clearing
  of that flag and the reading of ADCA's result; only then, for ADCB, the trigger, the
  polls up to the first that finds ADCINT1 of ADCB set, the clearing and the reading.
  Each result read is the sample converted after the trigger of that call, and the
  peripheral is at rest again, flags clear, for the next round.
\<close>

theorem AdcConversion_sequence:
  assumes "idle p"
    and "latency (adc p myADCA_BASE) = Some ka" and "latency (adc p myADCB_BASE) = Some kb"
  shows
    "\<exists>p'. AdcConversion read p =
            Some (read(0 := analog_in (adc p myADCA_BASE),
                       1 := analog_in (adc p myADCB_BASE)), p') \<and>
          calls p' = calls p
            @ ([ForceSOC myADCA_BASE]
               @ replicate ka (GetInterruptStatus myADCA_BASE False)
               @ [GetInterruptStatus myADCA_BASE True,
                  ClearInterruptStatus myADCA_BASE,
                  ReadResult myADCA_BASE (analog_in (adc p myADCA_BASE))])
            @ ([ForceSOC myADCB_BASE]
               @ replicate kb (GetInterruptStatus myADCB_BASE False)
               @ [GetInterruptStatus myADCB_BASE True,
                  ClearInterruptStatus myADCB_BASE,
                  ReadResult myADCB_BASE (analog_in (adc p myADCB_BASE))]) \<and>
          idle p'"
  using AdcConversion_idle [OF assms, of read] by (simp add: idle_def)

theorem AdcConversion_sequence_witness:
  "idle (idle_platform (Some 2) 50 (Some 1) 2000) \<and>
   latency (adc (idle_platform (Some 2) 50 (Some 1) 2000) myADCA_BASE) = Some 2 \<and>
   latency (adc (idle_platform (Some 2) 50 (Some 1) 2000) myADCB_BASE) = Some 1 \<and>
   (case AdcConversion (adcRawData boot) (idle_platform (Some 2) 50 (Some 1) 2000) of
      None \<Rightarrow> False
    | Some (read, p') \<Rightarrow>
        read 0 = 50 \<and> read 1 = 2000 \<and> idle p' \<and>
        calls p' =
          [ForceSOC myADCA_BASE,
           GetInterruptStatus myADCA_BASE False,
           GetInterruptStatus myADCA_BASE False,
           GetInterruptStatus myADCA_BASE True,
           ClearInterruptStatus myADCA_BASE,
           ReadResult myADCA_BASE 50,
           ForceSOC myADCB_BASE,
           GetInterruptStatus myADCB_BASE False,
           GetInterruptStatus myADCB_BASE True,
           ClearInterruptStatus myADCB_BASE,
           ReadResult myADCB_BASE 2000])"
proof -
  define p where "p = idle_platform (Some 2) 50 (Some 1) 2000"
  have h: "idle p" "latency (adc p myADCA_BASE) = Some 2" "latency (adc p myADCB_BASE) = Some 1"
    by (simp_all add: p_def idle_def idle_platform_def idle_adc_def)
  have a: "analog_in (adc p myADCA_BASE) = 50" "analog_in (adc p myADCB_BASE) = 2000"
    "calls p = []"
    by (simp_all add: p_def idle_platform_def idle_adc_def)
  have two: "replicate 2 (GetInterruptStatus myADCA_BASE False)
      = [GetInterruptStatus myADCA_BASE False, GetInterruptStatus myADCA_BASE False]"
    by (simp add: numeral_2_eq_2)
  from AdcConversion_sequence [OF h, of "adcRawData boot"] h
  show ?thesis
    unfolding p_def [symmetric] by (auto simp add: a two)
qed

lemma AdcConversion_stuck:
  assumes "idle p" and "latency (adc p myADCA_BASE) = None"
  shows "AdcConversion read p = None"
proof -
  have "wait_ADCINT1 myADCA_BASE (ADC_forceSOC myADCA_BASE p) = None"
    using assms by (intro wait_ADCINT1_stuck) (simp_all add: ADC_forceSOC_def idle_def)
  then show ?thesis by (simp add: AdcConversion_def)
qed

lemma main_loop_body_hw_pass:
  assumes "idle p"
    and "latency (adc p myADCA_BASE) = Some ka" and "latency (adc p myADCB_BASE) = Some kb"
  shows "\<exists>p'. idle p' \<and>
           main_loop_body_hw (p, s) =
             Some (p', main_loop_body
                         ((adcRawData s)(0 := analog_in (adc p myADCA_BASE),
                                         1 := analog_in (adc p myADCB_BASE))) s)"
  using AdcConversion_idle [OF assms, of "adcRawData s"]
  by (auto simp add: main_loop_body_hw_def idle_def)


section \<open>Small sets of 16-bit codes\<close>

lemma upto10: "{0..10::nat} = {0, 1, 2, 3, 4, 5, 6, 7, 8, 9, 10}"
proof -
  have "{0..10::nat} = set [0..<11]" by auto
  also have "[0..<11] = [0::nat, 1, 2, 3, 4, 5, 6, 7, 8, 9, 10]" by (simp add: upt_rec)
  finally show ?thesis by simp
qed

lemma upto9: "{0..9::nat} = {0, 1, 2, 3, 4, 5, 6, 7, 8, 9}"
proof -
  have "{0..9::nat} = set [0..<10]" by auto
  also have "[0..<10] = [0::nat, 1, 2, 3, 4, 5, 6, 7, 8, 9]" by (simp add: upt_rec)
  finally show ?thesis by simp
qed

lemma word_le_enum:
  fixes x :: "16 word"
  assumes "x \<le> word_of_nat n" and "n < 65536"
  shows "x \<in> word_of_nat ` {0..n}"
proof -
  from assms have "unat x \<le> n" by (simp add: word_le_nat_alt unat_of_nat)
  then have "unat x \<in> {0..n}" by simp
  then have "word_of_nat (unat x) \<in> (word_of_nat ` {0..n} :: 16 word set)" by (rule imageI)
  then show ?thesis by simp
qed

lemma codes_not_above_10:
  "{raw :: 16 word. \<not> 10 < raw} = {0, 1, 2, 3, 4, 5, 6, 7, 8, 9, 10}"
proof -
  have "x \<in> {0, 1, 2, 3, 4, 5, 6, 7, 8, 9, 10}" if "\<not> 10 < x" for x :: "16 word"
    using word_le_enum [of x 10] that by (simp add: upto10 not_less)
  then show ?thesis by auto
qed

lemma codes_not_below_4086:
  "{raw :: 16 word. raw \<le> 4095 \<and> \<not> raw < 4086} =
     {4086, 4087, 4088, 4089, 4090, 4091, 4092, 4093, 4094, 4095}"
proof -
  have "x \<in> {4086, 4087, 4088, 4089, 4090, 4091, 4092, 4093, 4094, 4095}"
    if "x \<le> 4095" "\<not> x < 4086" for x :: "16 word"
  proof -
    have "unat x \<le> 4095" "4086 \<le> unat x"
      using that by (simp_all add: word_le_nat_alt word_less_nat_alt)
    then have "unat (x - 4086) \<le> 9" by (simp add: unat_sub_if')
    then have "x - 4086 \<le> 9" by (simp add: word_le_nat_alt)
    then have "x - 4086 \<in> {0, 1, 2, 3, 4, 5, 6, 7, 8, 9}"
      using word_le_enum [of "x - 4086" 9] by (simp add: upto9)
    then have "(x - 4086) + 4086 \<in> (\<lambda>y. y + 4086) ` {0, 1, 2, 3, 4, 5, 6, 7, 8, 9}"
      by (rule imageI)
    then show ?thesis by simp
  qed
  then show ?thesis by auto
qed


section \<open>The self-check\<close>

text \<open>
  C5. \<^verbatim>\<open>VerifyADCReadings\<close> returns true exactly when at least one of the channels has a
  plausible raw sample. For the samples 50 (differential) and 2000 (single-ended) it
  returns true, although the differential sample alone is not plausible.
\<close>

theorem VerifyADCReadings_at_least_one:
  "(VerifyADCReadings s \<longleftrightarrow> (\<exists>i < NUM_ADC_CHANNELS. plausible i (adcRawData s i))) \<and>
   VerifyADCReadings (s\<lparr>adcRawData := samples 50 2000\<rparr>) \<and>
   \<not> plausible 0 50 \<and> plausible 1 2000"
proof -
  have "(\<exists>i < NUM_ADC_CHANNELS. plausible i (adcRawData s i)) \<longleftrightarrow>
        plausible 0 (adcRawData s 0) \<or> plausible 1 (adcRawData s 1)"
    by (auto simp add: NUM_ADC_CHANNELS_def numeral_2_eq_2 less_Suc_eq)
  then show ?thesis
    by (simp add: VerifyADCReadings_iff plausible_def samples_def)
qed

text \<open>
  C10. The bounds of the self-check are strict. The differential sample counts exactly
  when \<open>100 < raw < 65435\<close>, the single-ended one exactly when \<open>10 < raw < 4086\<close>: the
  values 100, 65435, 10 and 4086 themselves are rejected, their neighbours 101, 65434, 11
  and 4085 accepted. Of the 12-bit codes, eleven are rejected at the low end and ten at
  the high end. When neither sample counts, the result is false, \<^verbatim>\<open>main\<close> prints the
  warning instead of the pass message, prints the start message all the same, and the
  loop then runs every pass.
\<close>

theorem VerifyADCReadings_strict_bounds:
  "(VerifyADCReadings s \<longleftrightarrow>
      (100 < adcRawData s 0 \<and> adcRawData s 0 < 65435) \<or>
      (10 < adcRawData s 1 \<and> adcRawData s 1 < 4086)) \<and>
   \<not> VerifyADCReadings (s\<lparr>adcRawData := samples 100 0\<rparr>) \<and>
   \<not> VerifyADCReadings (s\<lparr>adcRawData := samples 65435 0\<rparr>) \<and>
   VerifyADCReadings (s\<lparr>adcRawData := samples 101 0\<rparr>) \<and>
   VerifyADCReadings (s\<lparr>adcRawData := samples 65434 0\<rparr>) \<and>
   \<not> VerifyADCReadings (s\<lparr>adcRawData := samples 0 10\<rparr>) \<and>
   \<not> VerifyADCReadings (s\<lparr>adcRawData := samples 0 4086\<rparr>) \<and>
   VerifyADCReadings (s\<lparr>adcRawData := samples 0 11\<rparr>) \<and>
   VerifyADCReadings (s\<lparr>adcRawData := samples 0 4085\<rparr>) \<and>
   card {raw :: 16 word. \<not> 10 < raw} = 11 \<and>
   card {raw :: 16 word. raw \<le> 4095 \<and> \<not> raw < 4086} = 10 \<and>
   (Text ''>>> ADC Initialization: WARNING'' \<in> set (uart (main_initial_test read boot)) \<longleftrightarrow>
      \<not> VerifyADCReadings (boot\<lparr>adcRawData := read\<rparr>)) \<and>
   (Text ''>>> ADC Initialization: PASSED'' \<in> set (uart (main_initial_test read boot)) \<longleftrightarrow>
      VerifyADCReadings (boot\<lparr>adcRawData := read\<rparr>)) \<and>
   Text ''>>> Starting Continuous Monitoring...'' \<in> set (uart (main_initial_test read boot)) \<and>
   testIteration (main_on read reads) = of_nat (length reads)"
proof -
  have bounds: "VerifyADCReadings s \<longleftrightarrow>
      (100 < adcRawData s 0 \<and> adcRawData s 0 < 65435) \<or>
      (10 < adcRawData s 1 \<and> adcRawData s 1 < 4086)"
    by (rule VerifyADCReadings_iff)
  have edges:
    "\<not> VerifyADCReadings (s\<lparr>adcRawData := samples 100 0\<rparr>)"
    "\<not> VerifyADCReadings (s\<lparr>adcRawData := samples 65435 0\<rparr>)"
    "VerifyADCReadings (s\<lparr>adcRawData := samples 101 0\<rparr>)"
    "VerifyADCReadings (s\<lparr>adcRawData := samples 65434 0\<rparr>)"
    "\<not> VerifyADCReadings (s\<lparr>adcRawData := samples 0 10\<rparr>)"
    "\<not> VerifyADCReadings (s\<lparr>adcRawData := samples 0 4086\<rparr>)"
    "VerifyADCReadings (s\<lparr>adcRawData := samples 0 11\<rparr>)"
    "VerifyADCReadings (s\<lparr>adcRawData := samples 0 4085\<rparr>)"
    by (simp_all add: VerifyADCReadings_iff samples_def)
  have cards:
    "card {raw :: 16 word. \<not> 10 < raw} = 11"
    "card {raw :: 16 word. raw \<le> 4095 \<and> \<not> raw < 4086} = 10"
    by (simp_all add: codes_not_above_10 codes_not_below_4086)
  have log:
    "Text ''>>> ADC Initialization: WARNING'' \<in> set (uart (main_initial_test read boot)) \<longleftrightarrow>
       \<not> VerifyADCReadings (boot\<lparr>adcRawData := read\<rparr>)"
    "Text ''>>> ADC Initialization: PASSED'' \<in> set (uart (main_initial_test read boot)) \<longleftrightarrow>
       VerifyADCReadings (boot\<lparr>adcRawData := read\<rparr>)"
    "Text ''>>> Starting Continuous Monitoring...'' \<in> set (uart (main_initial_test read boot))"
    by (simp_all add: uart_main_initial_test boot_def)
  have runs: "testIteration (main_on read reads) = of_nat (length reads)"
    by (simp add: main_on_def testIteration_main_loop testIteration_main_initial_test boot_def)
  from bounds edges cards log runs show ?thesis by blast
qed


section \<open>Calibration of the two channels\<close>

text \<open>
  C2. Channel 0 (differential, 16 bit, 3.3 V): \<^verbatim>\<open>AdcResult\<close> maps every raw sample to
  \<open>(raw - 32768) * (3.3 / 65536)\<close>, up to the rounding of binary32 (a quarter of a microvolt
  at most). Mid-scale \<open>32768\<close> gives exactly 0; raw 0 gives the binary32 value nearest to
  \<open>-1.65\<close>; raw 65535 gives \<open>1.65\<close> less one LSB, within the same tolerance. The result for
  channel 0 is defined for every 16-bit sample and depends on nothing but that sample.
\<close>

theorem AdcResult_differential:
  "AdcResult v (read(0 := 32768)) 0 = 0 \<and>
   AdcResult v (read(0 := 0)) 0 = round_f32 (- 165 / 100) \<and>
   \<bar>AdcResult v (read(0 := 0)) 0 - (- 165 / 100)\<bar> \<le> 1 / 40000000 \<and>
   \<bar>AdcResult v (read(0 := 65535)) 0 - (165 / 100 - 33 / 10 / 65536)\<bar> \<le> 1 / 4000000 \<and>
   \<bar>AdcResult v read 0 - (of_int (uint (read 0)) - 32768) * (33 / 10 / 65536)\<bar>
     \<le> 1 / 4000000 \<and>
   AdcResult v read 0 = AdcResult v' (samples (read 0) r) 0"
proof -
  have mid: "AdcResult v (read(0 := 32768)) 0 = 0"
    by (simp add: AdcResult_0 round_f32_def)
  have low: "AdcResult v (read(0 := 0)) 0 = round_f32 (- 165 / 100)"
    by (simp only: AdcResult_0_at_0 round_f32_minus_165)
  have low': "\<bar>AdcResult v (read(0 := 0)) 0 - (- 165 / 100)\<bar> \<le> 1 / 40000000"
    by (simp add: AdcResult_0_at_0)
  have "\<bar>AdcResult v (read(0 := 65535)) 0
          - (of_int (uint ((read(0 := 65535)) 0)) - 32768) * (33 / 10 / 65536)\<bar> \<le> 1 / 4000000"
    by (rule AdcResult_0_formula)
  then have high:
    "\<bar>AdcResult v (read(0 := 65535)) 0 - (165 / 100 - 33 / 10 / 65536)\<bar> \<le> 1 / 4000000"
    by simp
  have pure: "AdcResult v read 0 = AdcResult v' (samples (read 0) r) 0"
    by (simp add: AdcResult_0 samples_def)
  from mid low low' high AdcResult_0_formula [of v read] pure show ?thesis by blast
qed

text \<open>
  C3. Channel 1 (single-ended, 12 bit, 3.3 V): for every raw sample from 0 to 4095
  \<^verbatim>\<open>AdcResult\<close> gives \<open>raw * (3.3 / 4096)\<close>, up to the rounding of binary32. Raw 0 gives
  exactly 0, raw 4095 gives \<open>3.3\<close> less one LSB within that tolerance, and the result for
  channel 1 depends on nothing but the sample of channel 1.
\<close>

theorem AdcResult_single_ended:
  assumes "read 1 \<le> 4095"
  shows
    "\<bar>AdcResult v read 1 - of_nat (unat (read 1)) * (33 / 10 / 4096)\<bar> \<le> 1 / 4000000 \<and>
     AdcResult v (read(1 := 0)) 1 = 0 \<and>
     \<bar>AdcResult v (read(1 := 4095)) 1 - (33 / 10 - 33 / 10 / 4096)\<bar> \<le> 1 / 4000000 \<and>
     AdcResult v read 1 = AdcResult v' (samples r (read 1)) 1"
proof -
  have zero: "AdcResult v (read(1 := 0)) 1 = 0"
    unfolding AdcResult_1 by (simp add: round_f32_def)
  have "\<bar>AdcResult v (read(1 := 4095)) 1
          - of_nat (unat ((read(1 := 4095)) 1)) * (33 / 10 / 4096)\<bar> \<le> 1 / 4000000"
    by (rule AdcResult_1_formula) simp
  then have top:
    "\<bar>AdcResult v (read(1 := 4095)) 1 - (33 / 10 - 33 / 10 / 4096)\<bar> \<le> 1 / 4000000"
    by simp
  have pure: "AdcResult v read 1 = AdcResult v' (samples r (read 1)) 1"
    unfolding AdcResult_1 by (simp add: samples_def)
  from AdcResult_1_formula [where read = read and v = v, OF assms] zero top pure
  show ?thesis by blast
qed

theorem AdcResult_single_ended_witness:
  "samples 0 2048 1 \<le> (4095 :: 16 word) \<and>
   \<bar>AdcResult (\<lambda>_. 0) (samples 0 2048) 1 - 2048 * (33 / 10 / 4096)\<bar> \<le> 1 / 4000000 \<and>
   AdcResult (\<lambda>_. 0) ((samples 0 2048)(1 := 0)) 1 = 0 \<and>
   \<bar>AdcResult (\<lambda>_. 0) ((samples 0 2048)(1 := 4095)) 1 - (33 / 10 - 33 / 10 / 4096)\<bar>
     \<le> 1 / 4000000"
proof -
  have h: "samples 0 2048 1 \<le> (4095 :: 16 word)" by (simp add: samples_def)
  from AdcResult_single_ended
         [where read = "samples 0 2048" and v = "\<lambda>_. 0" and v' = "\<lambda>_. 0" and r = 0, OF h] h
  show ?thesis by (simp add: samples_def)
qed


section \<open>The statistics window\<close>

lemma channel_cases: "i < NUM_ADC_CHANNELS \<Longrightarrow> i = 0 \<or> i = 1"
  by (auto simp add: NUM_ADC_CHANNELS_def)

lemma feed_statistics_Nil: "feed_statistics [] s = s"
  by (simp add: feed_statistics_def)

lemma feed_statistics_Cons:
  "feed_statistics (v # vs) s = feed_statistics vs (UpdateStatistics (s\<lparr>adcVoltages := v\<rparr>))"
  by (simp add: feed_statistics_def)

lemma feed_statistics_window:
  assumes "i < NUM_ADC_CHANNELS"
  shows "minVoltages (feed_statistics vs s) i = fold min (map (\<lambda>v. v i) vs) (minVoltages s i) \<and>
         maxVoltages (feed_statistics vs s) i = fold max (map (\<lambda>v. v i) vs) (maxVoltages s i) \<and>
         sumVoltages (feed_statistics vs s) i = f32_sum (map (\<lambda>v. v i) vs) (sumVoltages s i)"
proof (induction vs arbitrary: s)
  case Nil
  show ?case by (simp add: feed_statistics_Nil f32_sum_def)
next
  case (Cons v vs)
  from channel_cases [OF assms] show ?case
    by (auto simp add: feed_statistics_Cons Cons.IH UpdateStatistics_eq f32_sum_def min.commute max.commute)
qed

lemma feed_statistics_frame:
  "testIteration (feed_statistics vs s) = testIteration s \<and>
   uart (feed_statistics vs s) = uart s \<and>
   adcRawData (feed_statistics vs s) = adcRawData s"
  by (induction vs arbitrary: s) (simp_all add: feed_statistics_Nil feed_statistics_Cons UpdateStatistics_eq)

lemma fold_min_below:
  fixes a :: rat
  assumes "xs \<noteq> []" and "\<forall>x \<in> set xs. x < a"
  shows "fold min xs a = Min (set xs)"
proof -
  have "fold min xs a = Min (set (a # xs))" by (simp only: Min.set_eq_fold)
  also have "\<dots> = min a (Min (set xs))" using assms(1) by simp
  also have "\<dots> = Min (set xs)"
  proof -
    have "Min (set xs) \<in> set xs" using assms(1) by (intro Min_in) simp_all
    then have "Min (set xs) < a" using assms(2) by blast
    then show ?thesis by (simp add: min_def)
  qed
  finally show ?thesis .
qed

lemma fold_max_above:
  fixes a :: rat
  assumes "xs \<noteq> []" and "\<forall>x \<in> set xs. a < x"
  shows "fold max xs a = Max (set xs)"
proof -
  have "fold max xs a = Max (set (a # xs))" by (simp only: Max.set_eq_fold)
  also have "\<dots> = max a (Max (set xs))" using assms(1) by simp
  also have "\<dots> = Max (set xs)"
  proof -
    have "Max (set xs) \<in> set xs" using assms(1) by (intro Max_in) simp_all
    then have "a < Max (set xs)" using assms(2) by blast
    then show ?thesis by (simp add: max_def)
  qed
  finally show ?thesis .
qed

lemma window_min_max:
  assumes "i < NUM_ADC_CHANNELS" and "vs \<noteq> []"
    and "\<forall>v \<in> set vs. - 10 < v i \<and> v i < 10"
  shows "minVoltages (feed_statistics vs (InitStatistics s)) i = Min ((\<lambda>v. v i) ` set vs) \<and>
         maxVoltages (feed_statistics vs (InitStatistics s)) i = Max ((\<lambda>v. v i) ` set vs)"
proof -
  have init: "minVoltages (InitStatistics s) i = 10" "maxVoltages (InitStatistics s) i = - 10"
    using channel_cases [OF assms(1)] by (auto simp add: InitStatistics_eq)
  have ne: "map (\<lambda>v. v i) vs \<noteq> []" using assms(2) by simp
  have lt: "\<forall>x \<in> set (map (\<lambda>v. v i) vs). x < 10" "\<forall>x \<in> set (map (\<lambda>v. v i) vs). - 10 < x"
    using assms(3) by auto
  show ?thesis
    using feed_statistics_window [OF assms(1), of vs "InitStatistics s"]
      fold_min_below [OF ne lt(1)] fold_max_above [OF ne lt(2)]
    by (simp add: init)
qed

lemma f32_sum_Cons: "f32_sum (x # xs) a = f32_sum xs (round_f32 (a + x))"
  by (simp add: f32_sum_def f32_add_def)

lemma sum_list_abs_nonneg: "0 \<le> (\<Sum>x\<leftarrow>xs. \<bar>x :: rat\<bar>)"
  by (induction xs) simp_all

lemma sum_list_abs_le: "\<bar>sum_list xs\<bar> \<le> (\<Sum>x\<leftarrow>xs. \<bar>x :: rat\<bar>)"
proof (induction xs)
  case Nil
  show ?case by simp
next
  case (Cons x xs)
  then show ?case by simp
qed

lemma sum_list_abs_bound:
  "\<forall>x \<in> set xs. \<bar>x :: rat\<bar> \<le> b \<Longrightarrow> (\<Sum>x\<leftarrow>xs. \<bar>x\<bar>) \<le> of_nat (length xs) * b"
proof (induction xs)
  case Nil
  show ?case by simp
next
  case (Cons x xs)
  then have "(\<Sum>x\<leftarrow>xs. \<bar>x\<bar>) \<le> of_nat (length xs) * b" and "\<bar>x\<bar> \<le> b" by simp_all
  then show ?case by (simp add: algebra_simps)
qed

text \<open>The error of the running sum, with unit round-off \<^verbatim>\<open>2^-24\<close>.\<close>

lemma f32_sum_error:
  "\<bar>f32_sum xs a - (a + sum_list xs)\<bar>
     \<le> ((1 + 1 / 2 ^ 24) ^ length xs - 1) * (\<bar>a\<bar> + (\<Sum>x\<leftarrow>xs. \<bar>x\<bar>))"
proof (induction xs arbitrary: a)
  case Nil
  show ?case by (simp add: f32_sum_def)
next
  case (Cons x xs)
  define u :: rat where "u = 1 / 2 ^ 24"
  define p where "p = (1 + u) ^ length xs"
  define A where "A = (\<Sum>x\<leftarrow>xs. \<bar>x\<bar>)"
  define S where "S = sum_list xs"
  define B where "B = \<bar>a\<bar> + \<bar>x\<bar>"
  define a' where "a' = round_f32 (a + x)"
  define F where "F = f32_sum xs a'"
  have u0: "0 \<le> u" by (simp add: u_def)
  have p1: "1 \<le> p" unfolding p_def using u0 by (intro one_le_power) simp
  have A0: "0 \<le> A" unfolding A_def by (rule sum_list_abs_nonneg)
  have B0: "0 \<le> B" by (simp add: B_def)
  have axB: "\<bar>a + x\<bar> \<le> B" unfolding B_def by linarith
  have r: "\<bar>a' - (a + x)\<bar> \<le> u * B"
    using round_f32_near [OF axB] by (simp add: a'_def u_def)
  then have a'B: "\<bar>a'\<bar> \<le> (1 + u) * B" using axB by (simp add: algebra_simps)
  have IH: "\<bar>F - (a' + S)\<bar> \<le> (p - 1) * (\<bar>a'\<bar> + A)"
    using Cons.IH [of a'] by (simp add: F_def p_def u_def A_def S_def)
  have "(p - 1) * (\<bar>a'\<bar> + A) \<le> (p - 1) * ((1 + u) * B + A)"
    using p1 a'B by (intro mult_left_mono) simp_all
  with IH have s1: "\<bar>F - (a' + S)\<bar> \<le> (p - 1) * ((1 + u) * B + A)" by linarith
  have pu: "0 \<le> p * u" using p1 u0 by simp
  have "(p - 1) * A \<le> (p * (1 + u) - 1) * A"
    using A0 pu by (intro mult_right_mono) (simp_all add: algebra_simps)
  moreover have "(p - 1) * ((1 + u) * B + A) + u * B = (p * (1 + u) - 1) * B + (p - 1) * A"
    by (simp add: algebra_simps)
  moreover have "\<bar>F - (a + x + S)\<bar> \<le> \<bar>F - (a' + S)\<bar> + \<bar>a' - (a + x)\<bar>" by linarith
  ultimately have "\<bar>F - (a + x + S)\<bar> \<le> (p * (1 + u) - 1) * B + (p * (1 + u) - 1) * A"
    using s1 r by linarith
  then have "\<bar>F - (a + x + S)\<bar> \<le> (p * (1 + u) - 1) * (B + A)" by (simp add: algebra_simps)
  then show ?case
    by (simp add: F_def a'_def f32_sum_Cons S_def B_def A_def p_def u_def algebra_simps)
qed

lemma growth10: "n \<le> 10 \<Longrightarrow> (1 + 1 / 2 ^ 24) ^ n - 1 \<le> (11 / 2 ^ 24 :: rat)"
proof -
  assume "n \<le> 10"
  then have "(1 + 1 / 2 ^ 24 :: rat) ^ n \<le> (1 + 1 / 2 ^ 24) ^ 10"
    by (intro power_increasing) simp_all
  also have "\<dots> \<le> 1 + 11 / 2 ^ 24" by (simp add: power_divide)
  finally show ?thesis by simp
qed

lemma window_average:
  assumes "xs \<noteq> []" and "length xs \<le> 10" and "\<forall>x \<in> set xs. \<bar>x\<bar> \<le> 10"
  shows "\<bar>round_f32 (f32_sum xs 0 / of_nat (length xs)) - sum_list xs / of_nat (length xs)\<bar>
           \<le> 1 / 100000"
proof -
  define n :: rat where "n = of_nat (length xs)"
  define F where "F = f32_sum xs 0"
  define S where "S = sum_list xs"
  define A where "A = (\<Sum>x\<leftarrow>xs. \<bar>x\<bar>)"
  have n1: "1 \<le> n" using assms(1) by (cases xs) (simp_all add: n_def)
  then have n0: "0 < n" by simp
  have A0: "0 \<le> A" unfolding A_def by (rule sum_list_abs_nonneg)
  have An: "A \<le> n * 10" unfolding A_def n_def using assms(3) by (rule sum_list_abs_bound)
  have "\<bar>F - S\<bar> \<le> ((1 + 1 / 2 ^ 24) ^ length xs - 1) * A"
    using f32_sum_error [of xs 0] by (simp add: F_def S_def A_def)
  also have "\<dots> \<le> (11 / 2 ^ 24) * A"
    using growth10 [OF assms(2)] A0 by (rule mult_right_mono)
  also have "\<dots> \<le> (11 / 2 ^ 24) * (n * 10)"
    using An by (intro mult_left_mono) simp_all
  finally have FS: "\<bar>F - S\<bar> \<le> (110 / 2 ^ 24) * n" by simp
  have "\<bar>F / n - S / n\<bar> = \<bar>F - S\<bar> / n"
    using n0 by (simp add: diff_divide_distrib [symmetric])
  also have "\<dots> \<le> (110 / 2 ^ 24) * n / n" using FS n0 by (intro divide_right_mono) simp_all
  finally have d: "\<bar>F / n - S / n\<bar> \<le> 110 / 2 ^ 24" using n0 by simp
  have "\<bar>S\<bar> \<le> n * 10" using sum_list_abs_le [of xs] An by (simp add: S_def A_def)
  then have "\<bar>S\<bar> / n \<le> n * 10 / n" using n0 by (intro divide_right_mono) simp_all
  then have Sn: "\<bar>S / n\<bar> \<le> 10" using n0 by simp
  have "\<bar>F / n\<bar> \<le> \<bar>S / n\<bar> + \<bar>F / n - S / n\<bar>" by linarith
  with Sn d have "\<bar>F / n\<bar> \<le> 10 + 110 / 2 ^ 24" by linarith
  then have r: "\<bar>round_f32 (F / n) - F / n\<bar> \<le> (10 + 110 / 2 ^ 24) / 2 ^ 24"
    by (rule round_f32_near)
  have "\<bar>round_f32 (F / n) - S / n\<bar> \<le> \<bar>round_f32 (F / n) - F / n\<bar> + \<bar>F / n - S / n\<bar>"
    by linarith
  also have "\<dots> \<le> (10 + 110 / 2 ^ 24) / 2 ^ 24 + 110 / 2 ^ 24" using r d by (rule add_mono)
  also have "\<dots> \<le> 1 / 100000" by simp
  finally show ?thesis by (simp add: F_def S_def n_def)
qed

lemma sampleCount_frame:
  "sampleCount (feed_statistics vs (InitStatistics s)) = sampleCount s"
  by (simp add: sampleCount_def feed_statistics_frame InitStatistics_eq)

lemma sampleCount_range: "1 \<le> unat (sampleCount s) \<and> unat (sampleCount s) \<le> 10"
proof -
  have "unat (testIteration s mod 10) < 10" by (simp add: unat_mod) 
  moreover have "testIteration s mod 10 \<noteq> 0 \<Longrightarrow> unat (testIteration s mod 10) \<noteq> 0"
    by (simp add: unat_eq_zero)
  ultimately show ?thesis by (auto simp add: sampleCount_def TEST_ITERATIONS_def Let_def)
qed

lemma avgVoltages_DisplayStatistics:
  assumes "i < NUM_ADC_CHANNELS"
  shows "avgVoltages (DisplayStatistics s) i =
           round_f32 (sumVoltages s i / of_nat (unat (sampleCount s)))"
proof -
  have "unat (sampleCount s) < 2 ^ 24" using sampleCount_range [of s] by simp
  then have "f32_of_nat (unat (sampleCount s)) = of_nat (unat (sampleCount s))"
    by (rule f32_of_nat_exact)
  then show ?thesis
    using channel_cases [OF assms] by (auto simp add: DisplayStatistics_eq f32_div_def)
qed

text \<open>
  A window between two resets. After a reset, let it take the updates \<open>v\<^sub>1 \<dots> v\<^sub>n\<close>
  (\<open>n \<ge> 1\<close>) of a channel, each strictly between the sentinels \<open>-10\<close> and \<open>+10\<close>. Then
  \<^verbatim>\<open>minVoltages\<close> is their minimum and \<^verbatim>\<open>maxVoltages\<close> their maximum;
  \<^verbatim>\<open>sumVoltages\<close> is their binary32 sum taken from the left, within
  \<^verbatim>\<open>(1 + 2^-24)^n - 1\<close> times the sum of the magnitudes of the exact sum; and if the
  sample count that \<^verbatim>\<open>DisplayStatistics\<close> divides by is \<open>n\<close>, the average it stores is
  within \<^verbatim>\<open>1e-4\<close> of the arithmetic mean.
\<close>

lemma statistics_window:
  assumes "i < NUM_ADC_CHANNELS" and "vs \<noteq> []" and "\<forall>v \<in> set vs. - 10 < v i \<and> v i < 10"
  shows
    "minVoltages (feed_statistics vs (InitStatistics s)) i = Min ((\<lambda>v. v i) ` set vs) \<and>
     maxVoltages (feed_statistics vs (InitStatistics s)) i = Max ((\<lambda>v. v i) ` set vs) \<and>
     sumVoltages (feed_statistics vs (InitStatistics s)) i = f32_sum (map (\<lambda>v. v i) vs) 0 \<and>
     \<bar>sumVoltages (feed_statistics vs (InitStatistics s)) i - (\<Sum>v\<leftarrow>vs. v i)\<bar>
       \<le> ((1 + 1 / 2 ^ 24) ^ length vs - 1) * (\<Sum>v\<leftarrow>vs. \<bar>v i\<bar>) \<and>
     (unat (sampleCount (feed_statistics vs (InitStatistics s))) = length vs \<longrightarrow>
        \<bar>avgVoltages (DisplayStatistics (feed_statistics vs (InitStatistics s))) i
           - (\<Sum>v\<leftarrow>vs. v i) / of_nat (length vs)\<bar> \<le> 1 / 10000)"
proof -
  define w where "w = feed_statistics vs (InitStatistics s)"
  define xs where "xs = map (\<lambda>v. v i) vs"
  have init: "sumVoltages (InitStatistics s) i = 0"
    using channel_cases [OF assms(1)] by (auto simp add: InitStatistics_eq)
  have sum: "sumVoltages w i = f32_sum xs 0"
    using feed_statistics_window [OF assms(1), of vs "InitStatistics s"]
    by (simp add: w_def xs_def init)
  have err: "\<bar>sumVoltages w i - sum_list xs\<bar>
      \<le> ((1 + 1 / 2 ^ 24) ^ length vs - 1) * (\<Sum>x\<leftarrow>xs. \<bar>x\<bar>)"
    using f32_sum_error [of xs 0] by (simp add: sum xs_def)
  have avg: "\<bar>avgVoltages (DisplayStatistics w) i - sum_list xs / of_nat (length vs)\<bar> \<le> 1 / 10000"
    if n: "unat (sampleCount w) = length vs"
  proof -
    have a: "length xs \<le> 10" using sampleCount_range [of w] n by (simp add: xs_def)
    have b: "xs \<noteq> []" using assms(2) by (simp add: xs_def)
    have c: "\<forall>x \<in> set xs. \<bar>x\<bar> \<le> 10" using assms(3) by (auto simp add: xs_def)
    have
      "\<bar>round_f32 (f32_sum xs 0 / of_nat (length xs)) - sum_list xs / of_nat (length xs)\<bar>
         \<le> 1 / 100000"
      using b a c by (rule window_average)
    then have "\<bar>round_f32 (sumVoltages w i / of_nat (unat (sampleCount w)))
                 - sum_list xs / of_nat (length vs)\<bar> \<le> 1 / 10000"
      by (simp add: sum n xs_def)
    then show ?thesis by (simp only: avgVoltages_DisplayStatistics [OF assms(1)])
  qed
  have xs_sum: "sum_list xs = (\<Sum>v\<leftarrow>vs. v i)" "(\<Sum>x\<leftarrow>xs. \<bar>x\<bar>) = (\<Sum>v\<leftarrow>vs. \<bar>v i\<bar>)"
    by (simp_all add: xs_def comp_def)
  from window_min_max [OF assms, of s] sum err avg
  show ?thesis unfolding w_def [symmetric] xs_sum [symmetric] xs_def [symmetric] by blast
qed

lemma AdcResult_inside_sentinels:
  assumes "read 1 \<le> 4095" and "i < NUM_ADC_CHANNELS"
  shows "- 10 < AdcResult v read i \<and> AdcResult v read i < 10"
proof -
  from channel_cases [OF assms(2)] show ?thesis
  proof
    assume "i = 0"
    with AdcResult_0_range [of v read] show ?thesis by simp
  next
    assume "i = 1"
    with AdcResult_1_range [where read = read and v = v, OF assms(1)] show ?thesis by simp
  qed
qed

lemma feed_statistics_single:
  "feed_statistics [v] s = UpdateStatistics (s\<lparr>adcVoltages := v\<rparr>)"
  by (simp add: feed_statistics_def)

text \<open>
  C9, on the range of the converters. For every raw sample of channel 0, and every raw
  sample of channel 1 that the 12-bit converter can deliver (at most 4095), the calibrated
  voltage lies in \<open>[-1.65, 1.65)\<close> and
  \<open>[0, 3.3)\<close>, so strictly between the sentinels. Hence the first update after a reset
  replaces both sentinels by the voltage, and after one update or more the minimum of
  every channel is at most its maximum.
\<close>

theorem calibrated_voltages_inside_sentinels:
  assumes "\<forall>r \<in> set (read # reads). r 1 \<le> 4095"
  shows
    "(- 165 / 100 \<le> AdcResult v read 0 \<and> AdcResult v read 0 < 165 / 100) \<and>
     (0 \<le> AdcResult v read 1 \<and> AdcResult v read 1 < 33 / 10) \<and>
     (\<forall>i < NUM_ADC_CHANNELS.
        - 10 < AdcResult v read i \<and> AdcResult v read i < 10 \<and>
        minVoltages (UpdateStatistics ((InitStatistics s)\<lparr>adcVoltages := AdcResult v read\<rparr>)) i
          = AdcResult v read i \<and>
        maxVoltages (UpdateStatistics ((InitStatistics s)\<lparr>adcVoltages := AdcResult v read\<rparr>)) i
          = AdcResult v read i \<and>
        minVoltages (feed_statistics (map (AdcResult v) (read # reads)) (InitStatistics s)) i
          \<le> maxVoltages (feed_statistics (map (AdcResult v) (read # reads)) (InitStatistics s)) i)"
proof -
  have r1: "read 1 \<le> 4095" using assms by simp
  have per_channel:
    "- 10 < AdcResult v read i \<and> AdcResult v read i < 10 \<and>
     minVoltages (UpdateStatistics ((InitStatistics s)\<lparr>adcVoltages := AdcResult v read\<rparr>)) i
       = AdcResult v read i \<and>
     maxVoltages (UpdateStatistics ((InitStatistics s)\<lparr>adcVoltages := AdcResult v read\<rparr>)) i
       = AdcResult v read i \<and>
     minVoltages (feed_statistics (map (AdcResult v) (read # reads)) (InitStatistics s)) i
       \<le> maxVoltages (feed_statistics (map (AdcResult v) (read # reads)) (InitStatistics s)) i"
    if i: "i < NUM_ADC_CHANNELS" for i
  proof -
    have inside: "- 10 < AdcResult v read i \<and> AdcResult v read i < 10"
      using r1 i by (rule AdcResult_inside_sentinels)
    then have one: "\<forall>w \<in> set [AdcResult v read]. - 10 < w i \<and> w i < 10" by simp
    have first:
      "minVoltages (feed_statistics [AdcResult v read] (InitStatistics s)) i = AdcResult v read i \<and>
       maxVoltages (feed_statistics [AdcResult v read] (InitStatistics s)) i = AdcResult v read i"
      using window_min_max [OF i _ one, of s] by simp
    define vs where "vs = map (AdcResult v) (read # reads)"
    have ne: "vs \<noteq> []" by (simp add: vs_def)
    have all: "\<forall>w \<in> set vs. - 10 < w i \<and> w i < 10"
      using assms i by (auto simp add: vs_def AdcResult_inside_sentinels)
    have fin: "finite ((\<lambda>w. w i) ` set vs)" "(\<lambda>w. w i) ` set vs \<noteq> {}" using ne by simp_all
    have "Min ((\<lambda>w. w i) ` set vs) \<le> Max ((\<lambda>w. w i) ` set vs)"
      using fin by (meson Max_ge Min_in Min_le order_trans)
    then have "minVoltages (feed_statistics vs (InitStatistics s)) i
                 \<le> maxVoltages (feed_statistics vs (InitStatistics s)) i"
      using window_min_max [OF i ne all, of s] by simp
    with inside first show ?thesis by (simp add: feed_statistics_single vs_def)
  qed
  from AdcResult_0_range [of v read] AdcResult_1_range [where read = read and v = v, OF r1]
    per_channel
  show ?thesis by blast
qed

theorem calibrated_voltages_inside_sentinels_witness:
  "samples 50 2000 1 \<le> (4095 :: 16 word) \<and> samples 40000 4095 1 \<le> (4095 :: 16 word) \<and>
   - 165 / 100 \<le> AdcResult (adcVoltages boot) (samples 50 2000) 0 \<and>
   AdcResult (adcVoltages boot) (samples 50 2000) 0 < 165 / 100 \<and>
   0 \<le> AdcResult (adcVoltages boot) (samples 50 2000) 1 \<and>
   AdcResult (adcVoltages boot) (samples 50 2000) 1 < 33 / 10 \<and>
   minVoltages (UpdateStatistics ((InitStatistics boot)
       \<lparr>adcVoltages := AdcResult (adcVoltages boot) (samples 50 2000)\<rparr>)) 0
     = AdcResult (adcVoltages boot) (samples 50 2000) 0 \<and>
   maxVoltages (UpdateStatistics ((InitStatistics boot)
       \<lparr>adcVoltages := AdcResult (adcVoltages boot) (samples 50 2000)\<rparr>)) 1
     = AdcResult (adcVoltages boot) (samples 50 2000) 1 \<and>
   minVoltages (feed_statistics
       (map (AdcResult (adcVoltages boot)) [samples 50 2000, samples 40000 4095])
       (InitStatistics boot)) 0
     \<le> maxVoltages (feed_statistics
       (map (AdcResult (adcVoltages boot)) [samples 50 2000, samples 40000 4095])
       (InitStatistics boot)) 0"
proof -
  have h: "\<forall>r \<in> set [samples 50 2000, samples 40000 4095]. r 1 \<le> (4095 :: 16 word)"
    by (simp add: samples_def)
  have c: "(0 :: nat) < NUM_ADC_CHANNELS" "(1 :: nat) < NUM_ADC_CHANNELS"
    by (simp_all add: NUM_ADC_CHANNELS_def)
  from calibrated_voltages_inside_sentinels [OF h, of "adcVoltages boot" boot] c h
  show ?thesis by simp
qed


text \<open>
  C9 as stated speaks of every pair of raw inputs. \<^verbatim>\<open>AdcResult\<close> takes any 16-bit value
  and does not mask or clamp it: for the raw sample 65535 on channel 1 it gives
  \<^verbatim>\<open>13840992 / 2^18\<close> V (52.8 V), above the sentinel, and the first update after a reset
  leaves \<^verbatim>\<open>minVoltages[1]\<close> at \<open>10\<close>.
\<close>

theorem calibrated_voltages_beyond_12_bits_counterexample:
  "AdcResult (adcVoltages boot) (samples 0 65535) 1 = 13840992 / 2 ^ 18 \<and>
   10 < AdcResult (adcVoltages boot) (samples 0 65535) 1 \<and>
   minVoltages (UpdateStatistics ((InitStatistics boot)
       \<lparr>adcVoltages := AdcResult (adcVoltages boot) (samples 0 65535)\<rparr>)) 1 = 10"
proof -
  have v: "AdcResult (adcVoltages boot) (samples 0 65535) 1 = 13840992 / 2 ^ 18"
    by (rule AdcResult_1_at_65535)
  have big: "10 < AdcResult (adcVoltages boot) (samples 0 65535) 1"
    by (simp only: v) simp
  have "minVoltages (UpdateStatistics ((InitStatistics boot)
       \<lparr>adcVoltages := AdcResult (adcVoltages boot) (samples 0 65535)\<rparr>)) 1
      = min 10 (AdcResult (adcVoltages boot) (samples 0 65535) 1)"
    by (simp add: UpdateStatistics_eq InitStatistics_eq)
  also have "\<dots> = 10" using big by (simp add: min_def)
  finally show ?thesis using v big by blast
qed


section \<open>Snapshots\<close>

lemma round_f32_small_ints:
  "round_f32 (- 20) = - 20 \<and> round_f32 (- 20 * 1000) = - 20000 \<and> round_f32 0 = 0"
  by code_simp

lemma last_table_DisplayStatistics:
  "last_table (DisplayStatistics s) =
     [StatRow (minVoltages s 0) (maxVoltages s 0)
        (f32_div (sumVoltages s 0) (f32_of_nat (unat (sampleCount s))))
        (f32_mul (f32_sub (maxVoltages s 0) (minVoltages s 0)) 1000),
      StatRow (minVoltages s 1) (maxVoltages s 1)
        (f32_div (sumVoltages s 1) (f32_of_nat (unat (sampleCount s))))
        (f32_mul (f32_sub (maxVoltages s 1) (minVoltages s 1)) 1000)] \<and>
   last_count (DisplayStatistics s) = sampleCount s"
  by (simp add: DisplayStatistics_eq last_table_def last_count_def)

lemma sampleCount_InitStatistics: "sampleCount (InitStatistics s) = sampleCount s"
  by (simp add: sampleCount_def InitStatistics_eq)

text \<open>
  C7, as the code has it. \<^verbatim>\<open>DisplayStatistics\<close> right after \<^verbatim>\<open>InitStatistics\<close> divides by a
  sample count between 1 and 10, never by zero, and prints an ordinary table: for both
  channels the minimum \<open>10\<close> and the maximum \<open>-10\<close> (the sentinels), the average \<open>0\<close> and
  the peak-to-peak value \<open>-20000\<close> mV, under its usual title. Nothing marks the table as
  empty.
\<close>

theorem snapshot_after_reset:
  "last_table (DisplayStatistics (InitStatistics s)) =
     [StatRow 10 (- 10) 0 (- 20000), StatRow 10 (- 10) 0 (- 20000)] \<and>
   last_count (DisplayStatistics (InitStatistics s)) = sampleCount s \<and>
   1 \<le> sampleCount s \<and> sampleCount s \<le> 10 \<and>
   avgVoltages (DisplayStatistics (InitStatistics s)) 0 = 0 \<and>
   avgVoltages (DisplayStatistics (InitStatistics s)) 1 = 0"
proof -
  have rows: "last_table (DisplayStatistics (InitStatistics s)) =
     [StatRow 10 (- 10) 0 (- 20000), StatRow 10 (- 10) 0 (- 20000)]"
    using round_f32_small_ints
    by (simp add: last_table_DisplayStatistics InitStatistics_eq f32_div_def f32_sub_def f32_mul_def)
  have cnt: "last_count (DisplayStatistics (InitStatistics s)) = sampleCount s"
    by (simp add: last_table_DisplayStatistics sampleCount_InitStatistics)
  have rng: "1 \<le> sampleCount s \<and> sampleCount s \<le> 10"
    using sampleCount_range [of s] by (simp add: word_le_nat_alt)
  have avg: "avgVoltages (DisplayStatistics (InitStatistics s)) 0 = 0"
    "avgVoltages (DisplayStatistics (InitStatistics s)) 1 = 0"
    using round_f32_small_ints
    by (simp_all add: DisplayStatistics_eq InitStatistics_eq f32_div_def)
  from rows cnt rng avg show ?thesis by blast
qed

text \<open>
  C7 as stated asks for a "no data" signal instead of an average of 0. The serial output of
  a snapshot taken straight after the reset of the zeroed globals: one table, titled with
  10 readings, average \<open>0\<close> on both channels.
\<close>

theorem snapshot_after_reset_counterexample:
  "uart (DisplayStatistics (InitStatistics boot)) =
     [Statistics 10 [StatRow 10 (- 10) 0 (- 20000), StatRow 10 (- 10) 0 (- 20000)]]"
  using round_f32_small_ints
  by (simp add: DisplayStatistics_eq InitStatistics_eq f32_div_def f32_sub_def f32_mul_def
      sampleCount_def TEST_ITERATIONS_def boot_def)

lemma peakToPeak_error:
  "\<bar>f32_mul (f32_sub a b) 1000 - (a - b) * 1000\<bar> \<le> \<bar>a - b\<bar> * 1000 * (3 / 2 ^ 24)"
proof -
  define d where "d = a - b"
  define r where "r = round_f32 d"
  have e1: "\<bar>r - d\<bar> \<le> \<bar>d\<bar> / 2 ^ 24" unfolding r_def by (rule round_f32_err)
  then have rb: "\<bar>r\<bar> \<le> \<bar>d\<bar> + \<bar>d\<bar> / 2 ^ 24" by linarith
  have "\<bar>r * 1000\<bar> = \<bar>r\<bar> * 1000" by (simp add: abs_mult)
  also have "\<dots> \<le> (\<bar>d\<bar> + \<bar>d\<bar> / 2 ^ 24) * 1000" using rb by (intro mult_right_mono) simp_all
  finally have "\<bar>round_f32 (r * 1000) - r * 1000\<bar> \<le> (\<bar>d\<bar> + \<bar>d\<bar> / 2 ^ 24) * 1000 / 2 ^ 24"
    by (rule round_f32_near)
  moreover have "\<bar>r * 1000 - d * 1000\<bar> \<le> \<bar>d\<bar> / 2 ^ 24 * 1000"
  proof -
    have "r * 1000 - d * 1000 = (r - d) * 1000" by (simp add: algebra_simps)
    then have "\<bar>r * 1000 - d * 1000\<bar> = \<bar>r - d\<bar> * 1000" by (simp only: abs_mult)
    with e1 show ?thesis by simp
  qed
  moreover have "\<bar>round_f32 (r * 1000) - d * 1000\<bar>
      \<le> \<bar>round_f32 (r * 1000) - r * 1000\<bar> + \<bar>r * 1000 - d * 1000\<bar>" by linarith
  ultimately have "\<bar>round_f32 (r * 1000) - d * 1000\<bar>
      \<le> (\<bar>d\<bar> + \<bar>d\<bar> / 2 ^ 24) * 1000 / 2 ^ 24 + \<bar>d\<bar> / 2 ^ 24 * 1000" by linarith
  also have "\<dots> \<le> \<bar>d\<bar> * 1000 * (3 / 2 ^ 24)" by (simp add: field_simps)
  finally show ?thesis by (simp add: f32_mul_def f32_sub_def r_def d_def)
qed

text \<open>
  C8. In every table that \<^verbatim>\<open>DisplayStatistics\<close> prints, the peak-to-peak column of a channel
  is \<open>(max - min) * 1000\<close> of the window, computed in binary32 (so within three units
  round-off of the exact product): millivolts, while the minimum, maximum and average
  columns carry the stored values in volts.
\<close>

theorem peakToPeak_in_millivolts:
  "row_p2p_mV (last_table (DisplayStatistics s) ! 0)
     = f32_mul (f32_sub (maxVoltages s 0) (minVoltages s 0)) 1000 \<and>
   row_p2p_mV (last_table (DisplayStatistics s) ! 1)
     = f32_mul (f32_sub (maxVoltages s 1) (minVoltages s 1)) 1000 \<and>
   \<bar>row_p2p_mV (last_table (DisplayStatistics s) ! 0)
      - (maxVoltages s 0 - minVoltages s 0) * 1000\<bar>
     \<le> \<bar>maxVoltages s 0 - minVoltages s 0\<bar> * 1000 * (3 / 2 ^ 24) \<and>
   \<bar>row_p2p_mV (last_table (DisplayStatistics s) ! 1)
      - (maxVoltages s 1 - minVoltages s 1) * 1000\<bar>
     \<le> \<bar>maxVoltages s 1 - minVoltages s 1\<bar> * 1000 * (3 / 2 ^ 24) \<and>
   row_min (last_table (DisplayStatistics s) ! 0) = minVoltages s 0 \<and>
   row_min (last_table (DisplayStatistics s) ! 1) = minVoltages s 1 \<and>
   row_max (last_table (DisplayStatistics s) ! 0) = maxVoltages s 0 \<and>
   row_max (last_table (DisplayStatistics s) ! 1) = maxVoltages s 1 \<and>
   row_avg (last_table (DisplayStatistics s) ! 0) = avgVoltages (DisplayStatistics s) 0 \<and>
   row_avg (last_table (DisplayStatistics s) ! 1) = avgVoltages (DisplayStatistics s) 1 \<and>
   length (last_table (DisplayStatistics s)) = NUM_ADC_CHANNELS"
proof -
  have T: "last_table (DisplayStatistics s) =
     [StatRow (minVoltages s 0) (maxVoltages s 0)
        (f32_div (sumVoltages s 0) (f32_of_nat (unat (sampleCount s))))
        (f32_mul (f32_sub (maxVoltages s 0) (minVoltages s 0)) 1000),
      StatRow (minVoltages s 1) (maxVoltages s 1)
        (f32_div (sumVoltages s 1) (f32_of_nat (unat (sampleCount s))))
        (f32_mul (f32_sub (maxVoltages s 1) (minVoltages s 1)) 1000)]"
    using last_table_DisplayStatistics [of s] by blast
  have avg:
    "avgVoltages (DisplayStatistics s) 0
       = f32_div (sumVoltages s 0) (f32_of_nat (unat (sampleCount s)))"
    "avgVoltages (DisplayStatistics s) 1
       = f32_div (sumVoltages s 1) (f32_of_nat (unat (sampleCount s)))"
    by (simp_all add: DisplayStatistics_eq)
  show ?thesis
    unfolding T avg
    using peakToPeak_error [of "maxVoltages s 0" "minVoltages s 0"]
      peakToPeak_error [of "maxVoltages s 1" "minVoltages s 1"]
    by (simp add: NUM_ADC_CHANNELS_def)
qed


section \<open>The monitoring loop\<close>

lemma AdcResult_any_array:
  "i < NUM_ADC_CHANNELS \<Longrightarrow> AdcResult v read i = AdcResult (adcVoltages boot) read i"
  by (drule channel_cases) (auto simp add: AdcResult_def Let_def)

text \<open>A pass whose counter is not a positive multiple of ten prints no statistics.\<close>

lemma main_loop_body_quiet:
  assumes "\<not> (testIteration s > 0 \<and> testIteration s mod TEST_ITERATIONS = 0)"
  shows "main_loop_body read s =
           (UpdateStatistics (s\<lparr>adcRawData := read, adcVoltages := AdcResult (adcVoltages s) read\<rparr>))
             \<lparr>uart := uart s @ [Readings (testIteration s)
                  [(read 0, AdcResult (adcVoltages s) read 0),
                   (read 1, AdcResult (adcVoltages s) read 1)]],
              testIteration := testIteration s + 1\<rparr>"
  using assms
  by (cases "0 < testIteration s"; cases "testIteration s mod TEST_ITERATIONS = 0")
     (simp_all add: main_loop_body_def Let_def UpdateStatistics_eq DisplayReadings_def
        UARTSend_def channels)

lemma main_loop_body_batch:
  assumes "testIteration s > 0 \<and> testIteration s mod TEST_ITERATIONS = 0"
  shows "main_loop_body read s =
           (InitStatistics (DisplayStatistics
              ((UpdateStatistics
                  (s\<lparr>adcRawData := read, adcVoltages := AdcResult (adcVoltages s) read\<rparr>))
                \<lparr>uart := uart s @ [Readings (testIteration s)
                  [(read 0, AdcResult (adcVoltages s) read 0),
                   (read 1, AdcResult (adcVoltages s) read 1)]]\<rparr>)))
             \<lparr>testIteration := testIteration s + 1\<rparr>"
  using assms
  by (simp add: main_loop_body_def Let_def UpdateStatistics_eq DisplayReadings_def UARTSend_def
      channels InitStatistics_eq DisplayStatistics_eq)

lemma word_of_nat_below_ten:
  assumes "k < 10"
  shows "\<not> ((of_nat k :: 32 word) > 0 \<and> (of_nat k :: 32 word) mod TEST_ITERATIONS = 0)"
proof
  assume a: "(of_nat k :: 32 word) > 0 \<and> (of_nat k :: 32 word) mod TEST_ITERATIONS = 0"
  have u: "unat (of_nat k :: 32 word) = k" using assms by (simp add: unat_of_nat)
  have "unat ((of_nat k :: 32 word) mod 10) = k mod 10" by (simp add: unat_mod u)
  moreover have "(of_nat k :: 32 word) mod 10 = 0" using a unfolding TEST_ITERATIONS_def by blast
  ultimately have "k mod 10 = 0" by (simp only: unat_0)
  then have "k = 0" using assms by simp
  with a show False by simp
qed

lemma main_loop_quiet:
  assumes "testIteration s = of_nat k" and "k + length reads \<le> 10"
    and "i < NUM_ADC_CHANNELS"
  shows "testIteration (main_loop reads s) = of_nat (k + length reads) \<and>
         filter is_Statistics (uart (main_loop reads s)) = filter is_Statistics (uart s) \<and>
         minVoltages (main_loop reads s) i
           = fold min (map (\<lambda>r. AdcResult (adcVoltages boot) r i) reads) (minVoltages s i) \<and>
         maxVoltages (main_loop reads s) i
           = fold max (map (\<lambda>r. AdcResult (adcVoltages boot) r i) reads) (maxVoltages s i) \<and>
         sumVoltages (main_loop reads s) i
           = f32_sum (map (\<lambda>r. AdcResult (adcVoltages boot) r i) reads) (sumVoltages s i)"
  using assms(1,2)
proof (induction reads arbitrary: s k)
  case Nil
  then show ?case by (simp add: main_loop_def f32_sum_def)
next
  case (Cons r reads)
  have k: "k < 10" using Cons.prems(2) by simp
  have q: "\<not> (testIteration s > 0 \<and> testIteration s mod TEST_ITERATIONS = 0)"
    unfolding Cons.prems(1) using k by (rule word_of_nat_below_ten)
  define s' where "s' = main_loop_body r s"
  have t': "testIteration s' = of_nat (Suc k)"
    by (simp add: s'_def testIteration_main_loop_body Cons.prems(1))
  have u': "filter is_Statistics (uart s') = filter is_Statistics (uart s)"
    by (simp add: s'_def main_loop_body_quiet [OF q] UpdateStatistics_eq is_Statistics_def)
  have v: "AdcResult (adcVoltages s) r i = AdcResult (adcVoltages boot) r i"
    using assms(3) by (rule AdcResult_any_array)
  have w': "minVoltages s' i = min (minVoltages s i) (AdcResult (adcVoltages boot) r i)"
    "maxVoltages s' i = max (maxVoltages s i) (AdcResult (adcVoltages boot) r i)"
    "sumVoltages s' i = f32_add (sumVoltages s i) (AdcResult (adcVoltages boot) r i)"
    using channel_cases [OF assms(3)] v
    by (auto simp add: s'_def main_loop_body_quiet [OF q] UpdateStatistics_eq)
  have "Suc k + length reads \<le> 10" using Cons.prems(2) by simp
  from Cons.IH [OF t' this] show ?case
    by (simp add: main_loop_def s'_def [symmetric] u' w' f32_sum_def min.commute max.commute)
qed

lemma f32_sum_snoc: "f32_sum (xs @ [x]) a = f32_add (f32_sum xs a) x"
  by (simp add: f32_sum_def)

lemma main_loop_snoc: "main_loop (reads @ [r]) s = main_loop_body r (main_loop reads s)"
  by (simp add: main_loop_def)

lemma main_initial_test_window:
  "minVoltages (main_initial_test read s) i = minVoltages (InitStatistics s) i \<and>
   maxVoltages (main_initial_test read s) i = maxVoltages (InitStatistics s) i \<and>
   sumVoltages (main_initial_test read s) i = sumVoltages (InitStatistics s) i"
  by (simp add: main_initial_test_def Let_def UARTSend_def InitStatistics_eq)

lemma first_batch:
  assumes "length reads = 10" and "i < NUM_ADC_CHANNELS"
  shows "filter is_Statistics (uart (main_on read0 reads)) = [] \<and>
         last_count (main_on read0 (reads @ [r])) = 10 \<and>
         row_avg (last_table (main_on read0 (reads @ [r])) ! i)
           = round_f32 (f32_sum (map (\<lambda>r. AdcResult (adcVoltages boot) r i) (reads @ [r])) 0 / 10)"
proof -
  define s0 where "s0 = main_initial_test read0 boot"
  define s10 where "s10 = main_loop reads s0"
  define X where "X = (UpdateStatistics
      (s10\<lparr>adcRawData := r, adcVoltages := AdcResult (adcVoltages s10) r\<rparr>))
        \<lparr>uart := uart s10 @ [Readings (testIteration s10)
           [(r 0, AdcResult (adcVoltages s10) r 0), (r 1, AdcResult (adcVoltages s10) r 1)]]\<rparr>"
  have t0: "testIteration s0 = of_nat 0"
    by (simp add: s0_def testIteration_main_initial_test boot_def)
  have u0: "filter is_Statistics (uart s0) = []"
    by (simp add: s0_def uart_main_initial_test boot_def is_Statistics_def)
  have sum0: "sumVoltages s0 i = 0"
    using channel_cases [OF assms(2)]
    by (auto simp add: s0_def main_initial_test_window InitStatistics_eq)
  have le: "0 + length reads \<le> 10" using assms(1) by simp
  note q = main_loop_quiet [OF t0 le assms(2)]
  have t10: "testIteration s10 = 10" using q assms(1) by (simp add: s10_def)
  have quiet: "filter is_Statistics (uart (main_on read0 reads)) = []"
    using q u0 by (simp add: main_on_def s0_def)
  have sum10: "sumVoltages s10 i = f32_sum (map (\<lambda>r. AdcResult (adcVoltages boot) r i) reads) 0"
    using q sum0 by (simp add: s10_def)
  have batch: "testIteration s10 > 0 \<and> testIteration s10 mod TEST_ITERATIONS = 0"
    by (simp add: t10 TEST_ITERATIONS_def)
  have eleven: "main_on read0 (reads @ [r])
      = (InitStatistics (DisplayStatistics X))\<lparr>testIteration := testIteration s10 + 1\<rparr>"
    by (simp add: main_on_def main_loop_snoc s0_def [symmetric] s10_def [symmetric]
          main_loop_body_batch [OF batch] X_def)
  have tab: "last_table (main_on read0 (reads @ [r])) = last_table (DisplayStatistics X)"
    "last_count (main_on read0 (reads @ [r])) = last_count (DisplayStatistics X)"
    by (simp_all add: eleven last_table_def last_count_def InitStatistics_eq)
  have cX: "sampleCount X = 10"
    by (simp add: X_def sampleCount_def UpdateStatistics_eq t10 TEST_ITERATIONS_def)
  have sX: "sumVoltages X i
      = f32_sum (map (\<lambda>r. AdcResult (adcVoltages boot) r i) (reads @ [r])) 0"
    using channel_cases [OF assms(2)] sum10 AdcResult_any_array [OF assms(2), of "adcVoltages s10" r]
    by (auto simp add: X_def UpdateStatistics_eq f32_sum_snoc)
  have ten: "f32_of_nat 10 = 10"
    using f32_of_nat_exact [of 10] by simp
  have "row_avg (last_table (DisplayStatistics X) ! i) = f32_div (sumVoltages X i) 10"
    using channel_cases [OF assms(2)] last_table_DisplayStatistics [of X]
    by (auto simp add: cX ten)
  then have avg: "row_avg (last_table (main_on read0 (reads @ [r])) ! i)
      = round_f32 (f32_sum (map (\<lambda>r. AdcResult (adcVoltages boot) r i) (reads @ [r])) 0 / 10)"
    by (simp add: tab sX f32_div_def)
  have cnt: "last_count (main_on read0 (reads @ [r])) = 10"
    using last_table_DisplayStatistics [of X] by (simp add: tab cX)
  from quiet cnt avg show ?thesis by blast
qed

lemma eleven_sample_average:
  "round_f32 (f32_sum (replicate 11 (13841203 / 2 ^ 23)) 0 / 10) = 15225322 / 2 ^ 23"
  unfolding f32_sum_def f32_add_def by code_simp

lemma AdcResult_1_at_2048: "AdcResult v (samples a 2048) 1 = 13841203 / 2 ^ 23"
proof -
  have "round_f32 (2048 * (13841203 / 2 ^ 34)) = 13841203 / 2 ^ 23" by code_simp
  then show ?thesis unfolding AdcResult_1 by (simp add: samples_def SINGLE_ENDED_val)
qed

text \<open>
  C4 on the first batch. \<^verbatim>\<open>main\<close> tests \<^verbatim>\<open>testIteration\<close> before it increments it, and the
  counter starts at 0: the first ten passes print no statistics, the eleventh prints
  the first table. With the raw samples \<open>(32768, 2048)\<close> in every pass, channel 1 reads
  \<^verbatim>\<open>13841203 / 2^23\<close> V (1.65 V) each time; the table is titled with 10 readings and
  shows the average \<^verbatim>\<open>15225322 / 2^23\<close> V (1.815 V), the sum of eleven updates divided by
  ten.
\<close>

theorem first_batch_eleven_over_ten:
  "filter is_Statistics
     (uart (main_on (samples 32768 2048) (replicate 10 (samples 32768 2048)))) = [] \<and>
   last_count (main_on (samples 32768 2048) (replicate 11 (samples 32768 2048))) = 10 \<and>
   row_avg (last_table (main_on (samples 32768 2048) (replicate 11 (samples 32768 2048))) ! 1)
     = 15225322 / 2 ^ 23 \<and>
   AdcResult (adcVoltages boot) (samples 32768 2048) 1 = 13841203 / 2 ^ 23"
proof -
  have c: "(1 :: nat) < NUM_ADC_CHANNELS" by (simp add: NUM_ADC_CHANNELS_def)
  have l: "length (replicate 10 (samples 32768 2048)) = 10" by simp
  have e: "replicate 10 (samples 32768 2048) @ [samples 32768 2048]
             = replicate 11 (samples 32768 2048)"
  proof -
    have "replicate 11 (samples 32768 2048) = replicate (10 + 1) (samples 32768 2048)" by simp
    also have "\<dots> = replicate 10 (samples 32768 2048) @ replicate 1 (samples 32768 2048)"
      by (rule replicate_add)
    finally show ?thesis by simp
  qed
  have m: "map (\<lambda>r. AdcResult (adcVoltages boot) r 1) (replicate 11 (samples 32768 2048))
             = replicate 11 (13841203 / 2 ^ 23)"
    by (simp only: map_replicate AdcResult_1_at_2048)
  from first_batch [OF l c, of "samples 32768 2048" "samples 32768 2048"]
  show ?thesis
    unfolding e m eleven_sample_average by (simp only: AdcResult_1_at_2048) 
qed

lemma first_batch_min_max:
  assumes "length reads = 10" and "i < NUM_ADC_CHANNELS"
  shows "row_min (last_table (main_on read0 (reads @ [r])) ! i)
           = fold min (map (\<lambda>r. AdcResult (adcVoltages boot) r i) (reads @ [r])) 10 \<and>
         row_max (last_table (main_on read0 (reads @ [r])) ! i)
           = fold max (map (\<lambda>r. AdcResult (adcVoltages boot) r i) (reads @ [r])) (- 10)"
proof -
  define s0 where "s0 = main_initial_test read0 boot"
  define s10 where "s10 = main_loop reads s0"
  define X where "X = (UpdateStatistics
      (s10\<lparr>adcRawData := r, adcVoltages := AdcResult (adcVoltages s10) r\<rparr>))
        \<lparr>uart := uart s10 @ [Readings (testIteration s10)
           [(r 0, AdcResult (adcVoltages s10) r 0), (r 1, AdcResult (adcVoltages s10) r 1)]]\<rparr>"
  have t0: "testIteration s0 = of_nat 0"
    by (simp add: s0_def testIteration_main_initial_test boot_def)
  have w0: "minVoltages s0 i = 10" "maxVoltages s0 i = - 10"
    using channel_cases [OF assms(2)]
    by (auto simp add: s0_def main_initial_test_window InitStatistics_eq)
  have le: "0 + length reads \<le> 10" using assms(1) by simp
  note q = main_loop_quiet [OF t0 le assms(2)]
  have t10: "testIteration s10 = 10" using q assms(1) by (simp add: s10_def)
  have w10:
    "minVoltages s10 i = fold min (map (\<lambda>r. AdcResult (adcVoltages boot) r i) reads) 10"
    "maxVoltages s10 i = fold max (map (\<lambda>r. AdcResult (adcVoltages boot) r i) reads) (- 10)"
    using q w0 by (simp_all add: s10_def)
  have batch: "testIteration s10 > 0 \<and> testIteration s10 mod TEST_ITERATIONS = 0"
    by (simp add: t10 TEST_ITERATIONS_def)
  have eleven: "main_on read0 (reads @ [r])
      = (InitStatistics (DisplayStatistics X))\<lparr>testIteration := testIteration s10 + 1\<rparr>"
    by (simp add: main_on_def main_loop_snoc s0_def [symmetric] s10_def [symmetric]
          main_loop_body_batch [OF batch] X_def)
  have tab: "last_table (main_on read0 (reads @ [r])) = last_table (DisplayStatistics X)"
    by (simp add: eleven last_table_def InitStatistics_eq)
  have wX:
    "minVoltages X i = fold min (map (\<lambda>r. AdcResult (adcVoltages boot) r i) (reads @ [r])) 10"
    "maxVoltages X i = fold max (map (\<lambda>r. AdcResult (adcVoltages boot) r i) (reads @ [r])) (- 10)"
    using channel_cases [OF assms(2)] w10 AdcResult_any_array [OF assms(2), of "adcVoltages s10" r]
    by (auto simp add: X_def UpdateStatistics_eq min.commute max.commute)
  have "row_min (last_table (DisplayStatistics X) ! i) = minVoltages X i \<and>
        row_max (last_table (DisplayStatistics X) ! i) = maxVoltages X i"
    using channel_cases [OF assms(2)] last_table_DisplayStatistics [of X] by auto
  then show ?thesis by (simp add: tab wX)
qed

lemma eleven_sample_min_max:
  "fold min (replicate 11 (13841203 / 2 ^ 23 :: rat)) 10 = 13841203 / 2 ^ 23 \<and>
   fold max (replicate 11 (13841203 / 2 ^ 23 :: rat)) (- 10) = 13841203 / 2 ^ 23"
  by code_simp

lemma eleven_sample_mean:
  "sum_list (replicate 11 (13841203 / 2 ^ 23 :: rat)) / 11 = 13841203 / 2 ^ 23"
  by code_simp

text \<open>
  C1 on the first batch. The window of the first table has taken eleven updates, and
  \<^verbatim>\<open>DisplayStatistics\<close> divides their sum by ten. With the raw samples \<open>(32768, 2048)\<close> in
  every pass, the table shows for channel 1 the minimum and the maximum
  \<^verbatim>\<open>13841203 / 2^23\<close> V, which is also the arithmetic mean of the eleven values, and the
  average \<^verbatim>\<open>15225322 / 2^23\<close> V: 0.165 V off the mean, where \<^verbatim>\<open>1e-4\<close> is allowed.
\<close>

theorem first_batch_average_not_mean:
  "row_min (last_table (main_on (samples 32768 2048) (replicate 11 (samples 32768 2048))) ! 1)
     = 13841203 / 2 ^ 23 \<and>
   row_max (last_table (main_on (samples 32768 2048) (replicate 11 (samples 32768 2048))) ! 1)
     = 13841203 / 2 ^ 23 \<and>
   row_avg (last_table (main_on (samples 32768 2048) (replicate 11 (samples 32768 2048))) ! 1)
     = 15225322 / 2 ^ 23 \<and>
   sum_list (map (\<lambda>r. AdcResult (adcVoltages boot) r 1) (replicate 11 (samples 32768 2048))) / 11
     = 13841203 / 2 ^ 23 \<and>
   1 / 10000 <
     \<bar>row_avg (last_table (main_on (samples 32768 2048) (replicate 11 (samples 32768 2048))) ! 1)
        - sum_list (map (\<lambda>r. AdcResult (adcVoltages boot) r 1)
                      (replicate 11 (samples 32768 2048))) / 11\<bar>"
proof -
  define T where
    "T = last_table (main_on (samples 32768 2048) (replicate 11 (samples 32768 2048)))"
  have c: "(1 :: nat) < NUM_ADC_CHANNELS" by (simp add: NUM_ADC_CHANNELS_def)
  have l: "length (replicate 10 (samples 32768 2048)) = 10" by simp
  have e: "replicate 10 (samples 32768 2048) @ [samples 32768 2048]
             = replicate 11 (samples 32768 2048)"
  proof -
    have "replicate 11 (samples 32768 2048) = replicate (10 + 1) (samples 32768 2048)" by simp
    also have "\<dots> = replicate 10 (samples 32768 2048) @ replicate 1 (samples 32768 2048)"
      by (rule replicate_add)
    finally show ?thesis by simp
  qed
  have m: "map (\<lambda>r. AdcResult (adcVoltages boot) r 1) (replicate 11 (samples 32768 2048))
             = replicate 11 (13841203 / 2 ^ 23)"
    by (simp only: map_replicate AdcResult_1_at_2048)
  have mm: "row_min (T ! 1) = 13841203 / 2 ^ 23" "row_max (T ! 1) = 13841203 / 2 ^ 23"
    using first_batch_min_max [OF l c, of "samples 32768 2048" "samples 32768 2048"]
      eleven_sample_min_max
    unfolding e m T_def by (simp_all only:)
  have avg: "row_avg (T ! 1) = 15225322 / 2 ^ 23"
    using first_batch [OF l c, of "samples 32768 2048" "samples 32768 2048"]
    unfolding e m eleven_sample_average T_def by (simp only:)
  have mean: "sum_list (map (\<lambda>r. AdcResult (adcVoltages boot) r 1)
                 (replicate 11 (samples 32768 2048))) / 11 = 13841203 / 2 ^ 23"
    unfolding m by (rule eleven_sample_mean)
  have off: "1 / 10000 < \<bar>row_avg (T ! 1)
        - sum_list (map (\<lambda>r. AdcResult (adcVoltages boot) r 1)
                      (replicate 11 (samples 32768 2048))) / 11\<bar>"
    unfolding avg mean by simp
  from mm avg mean off show ?thesis unfolding T_def by blast
qed


section \<open>The loop with the peripheral\<close>

lemma main_loop_Cons: "main_loop (r # reads) s = main_loop reads (main_loop_body r s)"
  by (simp add: main_loop_def)

lemma adcRawData_main_loop_body: "adcRawData (main_loop_body read s) = read"
  by (simp add: main_loop_body_def Let_def UpdateStatistics_eq DisplayReadings_def UARTSend_def
      InitStatistics_eq DisplayStatistics_eq)

text \<open>
  With the peripheral at rest, both converters able to complete and their inputs steady,
  \<open>n\<close> passes of the loop with the peripheral are \<open>n\<close> passes on the samples of the inputs.
\<close>

lemma main_loop_hw_steady:
  assumes "idle p"
    and "latency (adc p myADCA_BASE) = Some ka" and "latency (adc p myADCB_BASE) = Some kb"
    and "read = (adcRawData s)(0 := analog_in (adc p myADCA_BASE),
                               1 := analog_in (adc p myADCB_BASE))"
  shows "\<exists>p'. main_loop_hw n (p, s) = Some (p', main_loop (replicate n read) s)"
  using assms
proof (induction n arbitrary: p s)
  case 0
  show ?case by (simp add: main_loop_def)
next
  case (Suc n)
  define q where "q = p\<lparr>adc := (\<lambda>c. converted (adc p c)),
               calls := calls p
                 @ [ForceSOC myADCA_BASE]
                 @ replicate ka (GetInterruptStatus myADCA_BASE False)
                 @ [GetInterruptStatus myADCA_BASE True,
                    ClearInterruptStatus myADCA_BASE,
                    ReadResult myADCA_BASE (analog_in (adc p myADCA_BASE)),
                    ForceSOC myADCB_BASE]
                 @ replicate kb (GetInterruptStatus myADCB_BASE False)
                 @ [GetInterruptStatus myADCB_BASE True,
                    ClearInterruptStatus myADCB_BASE,
                    ReadResult myADCB_BASE (analog_in (adc p myADCB_BASE))]\<rparr>"
  define s' where "s' = main_loop_body read s"
  have conv: "AdcConversion (adcRawData s) p = Some (read, q)"
    unfolding Suc.prems(4) q_def
    using AdcConversion_idle [OF Suc.prems(1,2,3), of "adcRawData s"] by (rule conjunct1)
  then have step: "main_loop_body_hw (p, s) = Some (q, s')"
    by (simp add: main_loop_body_hw_def s'_def)
  have q: "idle q" "latency (adc q myADCA_BASE) = Some ka" "latency (adc q myADCB_BASE) = Some kb"
    using Suc.prems(1,2,3) by (simp_all add: q_def idle_def converted_def)
  have "adcRawData s' = read" unfolding s'_def by (rule adcRawData_main_loop_body)
  moreover have "analog_in (adc q myADCA_BASE) = analog_in (adc p myADCA_BASE)"
    "analog_in (adc q myADCB_BASE) = analog_in (adc p myADCB_BASE)"
    by (simp_all add: q_def converted_def)
  moreover have "read(0 := analog_in (adc p myADCA_BASE), 1 := analog_in (adc p myADCB_BASE)) = read"
    unfolding Suc.prems(4) by (rule ext) simp
  ultimately have "read = (adcRawData s')(0 := analog_in (adc q myADCA_BASE),
                               1 := analog_in (adc q myADCB_BASE))"
    by simp
  from Suc.IH [OF q this] obtain p' where
    "main_loop_hw n (q, s') = Some (p', main_loop (replicate n read) s')" ..
  then have "main_loop_hw (Suc n) (p, s) = Some (p', main_loop (replicate (Suc n) read) s)"
    by (simp add: step s'_def main_loop_Cons)
  then show ?case ..
qed

lemma main_initial_test_hw_pass:
  assumes "idle p"
    and "latency (adc p myADCA_BASE) = Some ka" and "latency (adc p myADCB_BASE) = Some kb"
  shows "\<exists>p'. idle p' \<and>
           main_initial_test_hw (p, s) =
             Some (p', main_initial_test
                         ((adcRawData s)(0 := analog_in (adc p myADCA_BASE),
                                         1 := analog_in (adc p myADCB_BASE))) s)"
  using AdcConversion_idle [OF assms, of "adcRawData s"]
  by (auto simp add: main_initial_test_hw_def idle_def)

end
